theory Spec2Isabelle
  imports Complex_Main "HOL-Library.Multiset" "HOL-Library.Signed_Division"
    "HOL-Library.Product_Lexorder"
begin

section \<open>Data model\<close>

text \<open>
  The detector works on OpenCV values. The C++ \<^verbatim>\<open>int\<close> is modelled by \<open>int\<close>: sums and
  differences of pixel coordinates are exact, the two products of image dimensions are
  taken with the 32-bit wrap-around (\<open>int_mul\<close> below). \<^verbatim>\<open>double\<close> and \<^verbatim>\<open>float\<close>
  are modelled by \<open>real\<close>, with the constants, comparisons and weights of the source kept
  as written. Where a \<^verbatim>\<open>double\<close> result is converted to an integer (the size of the
  working image and the coordinates mapped back, both through the scale factor), each
  quotient and product is rounded to the nearest \<^verbatim>\<open>double\<close> as the machine rounds it
  (\<open>double_div\<close>, \<open>double_mul\<close> below); in the scores, the area thresholds and the normalised
  coordinates (and in their conversion to the \<^verbatim>\<open>float\<close> fields of the bounds), rounding
  is not modelled.
\<close>

type_synonym point = "int \<times> int"

type_synonym contour = "point list"

record cv_size =
  width :: int
  height :: int

record rect =
  rect_x :: int
  rect_y :: int
  rect_width :: int
  rect_height :: int

text \<open>\<^verbatim>\<open>struct DocumentBounds\<close> of \<^verbatim>\<open>iso_id1_document_detector.h\<close>.\<close>

record DocumentBounds =
  x1 :: real
  y1 :: real
  x2 :: real
  y2 :: real
  x3 :: real
  y3 :: real
  x4 :: real
  y4 :: real
  confidence :: real

definition DocumentBounds_init :: DocumentBounds where
  "DocumentBounds_init =
     \<lparr>x1 = 0, y1 = 0, x2 = 0, y2 = 0, x3 = 0, y3 = 0, x4 = 0, y4 = 0, confidence = 0\<rparr>"

text \<open>The parameter fields of \<^verbatim>\<open>class ISO_ID1_DocumentDetector\<close>.\<close>

record ISO_ID1_DocumentDetector =
  canny_threshold1 :: real
  canny_threshold2 :: real
  min_contour_area_ratio :: real
  max_contour_area_ratio :: real
  approx_epsilon_factor :: real
  target_aspect_ratio :: real
  aspect_ratio_tolerance :: real

text \<open>The constructor \<^verbatim>\<open>ISO_ID1_DocumentDetector::ISO_ID1_DocumentDetector()\<close>.\<close>

definition ISO_ID1_DocumentDetector_init :: ISO_ID1_DocumentDetector where
  "ISO_ID1_DocumentDetector_init =
     \<lparr>canny_threshold1 = 10, canny_threshold2 = 30,
      min_contour_area_ratio = 0.002, max_contour_area_ratio = 0.99,
      approx_epsilon_factor = 0.01, target_aspect_ratio = 1.586,
      aspect_ratio_tolerance = 0.4\<rparr>"

section \<open>Machine arithmetic\<close>

text \<open>
  The product of two \<^verbatim>\<open>int\<close> values is a 32-bit value: the exact product when that
  lies between \<open>- 2 ^ 31\<close> and \<open>2 ^ 31 - 1\<close>, and otherwise (where C++ leaves the
  result open) the two's-complement wrap-around that the compiled multiplication gives.
\<close>

definition int_mul :: "int \<Rightarrow> int \<Rightarrow> int" where
  "int_mul a b = (a * b + 2 ^ 31) mod 2 ^ 32 - 2 ^ 31"

text \<open>
  Rounding to the nearest integer, a tie to the even one: the rounding of the
  floating-point unit, and of \<^verbatim>\<open>cvRound\<close>.
\<close>

definition round_half_even :: "real \<Rightarrow> int" where
  "round_half_even r =
     (let f = \<lfloor>r\<rfloor> in
      if r - real_of_int f < 1 / 2 then f
      else if 1 / 2 < r - real_of_int f then f + 1
      else if even f then f else f + 1)"

text \<open>
  A \<^verbatim>\<open>double\<close> (IEEE 754 binary64) has 53 significant bits: the doubles around \<open>x\<close>,
  with \<open>2 ^ e \<le> \<bar>x\<bar> < 2 ^ (e + 1)\<close>, are the multiples of \<open>ulp x = 2 ^ (e - 52)\<close>.
  \<open>double_of x\<close> is the double nearest to \<open>x\<close>, a tie going to the even multiple: the
  result that an IEEE operation returns for the exact result \<open>x\<close>. The exponent range
  is not modelled: the values rounded here are quotients and products of 32-bit integers
  and of the scale factor, far inside it.
\<close>

definition ulp :: "real \<Rightarrow> real" where
  "ulp x = 2 powi (\<lfloor>log 2 \<bar>x\<bar>\<rfloor> - 52)"

definition double_of :: "real \<Rightarrow> real" where
  "double_of x = (if x = 0 then 0 else real_of_int (round_half_even (x / ulp x)) * ulp x)"

text \<open>The division and the multiplication of two doubles.\<close>

definition double_div :: "real \<Rightarrow> real \<Rightarrow> real" where
  "double_div a b = double_of (a / b)"

definition double_mul :: "real \<Rightarrow> real \<Rightarrow> real" where
  "double_mul a b = double_of (a * b)"

section \<open>The OpenCV primitives\<close>

text \<open>
  \<^verbatim>\<open>cv::Mat\<close>: the sizes and the channel count are what the detector reads; the pixel
  content is only handed to OpenCV and stays abstract.
\<close>

record 'px Mat =
  cols :: int
  rows :: int
  channels :: int
  pixels :: 'px

definition mat_size :: "'px Mat \<Rightarrow> cv_size" where
  "mat_size m = \<lparr>width = cols m, height = rows m\<rparr>"

text \<open>\<^verbatim>\<open>cv::Mat::empty()\<close>: no element.\<close>

definition empty_mat :: "'px Mat \<Rightarrow> bool" where
  "empty_mat m = (cols m \<le> 0 \<or> rows m \<le> 0)"

datatype ColorConversionCode = COLOR_BGR2GRAY | COLOR_BGRA2GRAY

text \<open>
  The image-processing library is external to the repository: the detector is
  parameterised by its operations. Those on images give the pixel content of their
  result (all but \<^verbatim>\<open>resize\<close> keep the size of their argument); the
  geometric ones are functions of a contour. \<^verbatim>\<open>minEnclosingCircle\<close> gives the
  centre only, the radius is never read by the detector.
\<close>

record 'px opencv =
  resize :: "'px Mat \<Rightarrow> cv_size \<Rightarrow> 'px"
  cvtColor :: "'px Mat \<Rightarrow> ColorConversionCode \<Rightarrow> 'px"
  CLAHE_apply :: "'px Mat \<Rightarrow> 'px"
  GaussianBlur :: "'px Mat \<Rightarrow> int \<Rightarrow> 'px"
  meanStdDev :: "'px Mat \<Rightarrow> real \<times> real"
  Canny :: "'px Mat \<Rightarrow> real \<Rightarrow> real \<Rightarrow> 'px"
  morphologyEx_close :: "'px Mat \<Rightarrow> int \<Rightarrow> 'px"
  findContours :: "'px Mat \<Rightarrow> contour list"
  contourArea :: "contour \<Rightarrow> real"
  arcLength :: "contour \<Rightarrow> real"
  approxPolyDP :: "contour \<Rightarrow> real \<Rightarrow> contour"
  boundingRect :: "contour \<Rightarrow> rect"
  minEnclosingCircle :: "contour \<Rightarrow> real \<times> real"
  convexHull :: "contour \<Rightarrow> contour"

text \<open>\<^verbatim>\<open>cv::norm\<close> of a point: the Euclidean length.\<close>

definition norm2 :: "real \<Rightarrow> real \<Rightarrow> real" where
  "norm2 a b = sqrt (a * a + b * b)"

section \<open>Configuration methods of the ID-1 detector\<close>

definition setCannyThresholds ::
  "ISO_ID1_DocumentDetector \<Rightarrow> real \<Rightarrow> real \<Rightarrow> ISO_ID1_DocumentDetector" where
  "setCannyThresholds d threshold1 threshold2 =
     d\<lparr>canny_threshold1 := threshold1, canny_threshold2 := threshold2\<rparr>"

definition setAreaRatios ::
  "ISO_ID1_DocumentDetector \<Rightarrow> real \<Rightarrow> real \<Rightarrow> ISO_ID1_DocumentDetector" where
  "setAreaRatios d min_ratio max_ratio =
     d\<lparr>min_contour_area_ratio := min_ratio, max_contour_area_ratio := max_ratio\<rparr>"

definition setTargetAspectRatio ::
  "ISO_ID1_DocumentDetector \<Rightarrow> real \<Rightarrow> real \<Rightarrow> ISO_ID1_DocumentDetector" where
  "setTargetAspectRatio d ratio tolerance =
     d\<lparr>target_aspect_ratio := ratio, aspect_ratio_tolerance := tolerance\<rparr>"

section \<open>Resolution-adaptive parameter selection\<close>

text \<open>
  \<^verbatim>\<open>adaptParametersForImageSize\<close> overwrites six of the seven fields from the smaller
  image dimension. The quotient \<^verbatim>\<open>max_dimension / min_dimension\<close> is a \<^verbatim>\<open>double\<close>
  division: with a zero divisor it is \<^verbatim>\<open>+inf\<close> for a positive dividend (and the
  comparison with 2.5 holds) and \<^verbatim>\<open>NaN\<close> for a zero dividend (and it does not).
\<close>

definition wide_image :: "int \<Rightarrow> int \<Rightarrow> bool" where
  "wide_image max_dimension min_dimension =
     (if min_dimension = 0 then 0 < max_dimension
      else real_of_int max_dimension / real_of_int min_dimension > 2.5)"

definition adaptParametersForImageSize ::
  "ISO_ID1_DocumentDetector \<Rightarrow> cv_size \<Rightarrow> ISO_ID1_DocumentDetector" where
  "adaptParametersForImageSize d image_size =
     (let min_dimension = min (width image_size) (height image_size);
          max_dimension = max (width image_size) (height image_size);
          d1 = (if min_dimension < 400 then
                  d\<lparr>canny_threshold1 := 30, canny_threshold2 := 90,
                    min_contour_area_ratio := 0.05, max_contour_area_ratio := 0.95,
                    approx_epsilon_factor := 0.02, aspect_ratio_tolerance := 0.5\<rparr>
                else if min_dimension < 800 then
                  d\<lparr>canny_threshold1 := 25, canny_threshold2 := 75,
                    min_contour_area_ratio := 0.01, max_contour_area_ratio := 0.90,
                    approx_epsilon_factor := 0.015, aspect_ratio_tolerance := 0.4\<rparr>
                else if min_dimension < 1500 then
                  d\<lparr>canny_threshold1 := 20, canny_threshold2 := 60,
                    min_contour_area_ratio := 0.005, max_contour_area_ratio := 0.85,
                    approx_epsilon_factor := 0.01, aspect_ratio_tolerance := 0.35\<rparr>
                else
                  d\<lparr>canny_threshold1 := 15, canny_threshold2 := 45,
                    min_contour_area_ratio := 0.002, max_contour_area_ratio := 0.80,
                    approx_epsilon_factor := 0.008, aspect_ratio_tolerance := 0.3\<rparr>)
      in if wide_image max_dimension min_dimension then
           d1\<lparr>min_contour_area_ratio := min_contour_area_ratio d1 * 0.5,
              aspect_ratio_tolerance := aspect_ratio_tolerance d1 * 1.2\<rparr>
         else d1)"

text \<open>
  The table of section 4.1 of the specification, written from its words: one row per
  bucket of the smaller dimension, as (edge low, edge high, minAreaRatio, maxAreaRatio,
  epsilonFactor, aspectTolerance), and the adjustment for wide frames.
\<close>

definition selector_row :: "int \<Rightarrow> real \<times> real \<times> real \<times> real \<times> real \<times> real" where
  "selector_row m =
     (if m < 400 then (30, 90, 0.05, 0.95, 0.02, 0.50)
      else if m \<le> 799 then (25, 75, 0.01, 0.90, 0.015, 0.40)
      else if m \<le> 1499 then (20, 60, 0.005, 0.85, 0.01, 0.35)
      else (15, 45, 0.002, 0.80, 0.008, 0.30))"

definition selector_bundle :: "int \<Rightarrow> int \<Rightarrow> real \<times> real \<times> real \<times> real \<times> real \<times> real" where
  "selector_bundle w h =
     (case selector_row (min w h) of (lo, hi, mn, mx, eps, tol) \<Rightarrow>
        if real_of_int (max w h) / real_of_int (min w h) > 2.5
        then (lo, hi, mn / 2, mx, eps, tol * 1.2)
        else (lo, hi, mn, mx, eps, tol))"

definition bundle_of :: "ISO_ID1_DocumentDetector \<Rightarrow> real \<times> real \<times> real \<times> real \<times> real \<times> real" where
  "bundle_of d =
     (canny_threshold1 d, canny_threshold2 d, min_contour_area_ratio d,
      max_contour_area_ratio d, approx_epsilon_factor d, aspect_ratio_tolerance d)"

section \<open>Preprocessing\<close>

text \<open>
  \<^verbatim>\<open>preprocessImageForID1Document\<close>: the conversion to grey levels, the sizes of
  the blur and of the closing kernel, and the chain of filters. The contrast equalisation
  has the fixed parameters 2.0 and 8 x 8. The Canny thresholds are computed from the mean and the
  standard deviation of the blurred image; the threshold fields of the detector are not
  read.
\<close>

definition to_gray :: "'px opencv \<Rightarrow> 'px Mat \<Rightarrow> 'px Mat" where
  "to_gray cv input =
     (if channels input = 3
      then input\<lparr>channels := 1, pixels := cvtColor cv input COLOR_BGR2GRAY\<rparr>
      else if channels input = 4
      then input\<lparr>channels := 1, pixels := cvtColor cv input COLOR_BGRA2GRAY\<rparr>
      else input)"

definition blur_size_for :: "'px Mat \<Rightarrow> int" where
  "blur_size_for input =
     (let blur_size = max 3 (min (rows input) (cols input) div 400)
      in if blur_size mod 2 = 0 then blur_size + 1 else blur_size)"

definition kernel_size_for :: "'px Mat \<Rightarrow> int" where
  "kernel_size_for input = max 2 (min (rows input) (cols input) div 800)"

definition preprocessImageForID1Document :: "'px opencv \<Rightarrow> 'px Mat \<Rightarrow> bool \<times> 'px Mat" where
  "preprocessImageForID1Document cv input =
     (let gray = to_gray cv input;
          enhanced = gray\<lparr>pixels := CLAHE_apply cv gray\<rparr>;
          blurred = enhanced\<lparr>pixels := GaussianBlur cv enhanced (blur_size_for input)\<rparr>;
          mean_val = fst (meanStdDev cv blurred);
          stddev_val = snd (meanStdDev cv blurred);
          dynamic_low = max 10.0 (mean_val - stddev_val);
          dynamic_high = min 200.0 (mean_val + stddev_val);
          edges = blurred\<lparr>pixels := Canny cv blurred dynamic_low dynamic_high\<rparr>;
          output = edges\<lparr>pixels := morphologyEx_close cv edges (kernel_size_for input)\<rparr>
      in (True, output))"

section \<open>Contour candidate extraction\<close>

text \<open>
  \<open>reject_contour\<close> is the predicate handed to \<^verbatim>\<open>std::remove_if\<close> in
  \<^verbatim>\<open>findDocumentContours\<close>: true means the contour is erased.
\<close>

definition reject_contour :: "'px opencv \<Rightarrow> real \<Rightarrow> real \<Rightarrow> 'px Mat \<Rightarrow> contour \<Rightarrow> bool" where
  "reject_contour cv min_area max_area edge_image contour =
     (let area = contourArea cv contour in
      if area < min_area \<or> area > max_area then True
      else
        let bounds = boundingRect cv contour in
        if rect_x bounds = 0 \<and> rect_y bounds = 0 \<and>
           rect_width bounds = cols edge_image \<and> rect_height bounds = rows edge_image
        then
          (let aspect = real_of_int (rect_width bounds) / real_of_int (rect_height bounds) in
           if aspect \<ge> 1.2 \<and> aspect \<le> 2.2 then False else True)
        else False)"

definition findDocumentContours ::
  "'px opencv \<Rightarrow> ISO_ID1_DocumentDetector \<Rightarrow> 'px Mat \<Rightarrow> bool \<times> contour list" where
  "findDocumentContours cv d edge_image =
     (let contours = findContours cv edge_image in
      if contours = [] then (False, contours)
      else
        let image_area = real_of_int (int_mul (rows edge_image) (cols edge_image));
            min_area = image_area * min_contour_area_ratio d;
            max_area = image_area * max_contour_area_ratio d;
            kept = filter (\<lambda>contour. \<not> reject_contour cv min_area max_area edge_image contour)
                     contours
        in (kept \<noteq> [], kept))"



section \<open>Document score\<close>

text \<open>
  \<^verbatim>\<open>calculateDocumentScore\<close>, lines 203 to 264. The image area is the \<^verbatim>\<open>int\<close> product
  of line 212. The divisions are those of the reals where the divisor is not zero. A zero
  divisor is met as follows. With an image area of 0 the code's area ratio is infinite or
  not a number and fails the test of line 216, as the model's ratio 0 does. With a target
  ratio of 0 the code's \<^verbatim>\<open>aspect_diff\<close> is infinite (the aspect ratio of a bounding
  rectangle is positive) and fails the test of line 235: that case is written out. The
  bounding rectangle that OpenCV gives for a contour with points has a height of at least
  1. With a tolerance of 0 and an \<^verbatim>\<open>aspect_diff\<close> that passes the test, or with an
  image size of 0 x 0, the code's result is not a finite number and has no counterpart
  here; neither occurs in a detection call, where the size is that of a non-empty image
  and the tolerance comes from \<^verbatim>\<open>adaptParametersForImageSize\<close>.
\<close>

definition calculateDocumentScore ::
  "'px opencv \<Rightarrow> ISO_ID1_DocumentDetector \<Rightarrow> contour \<Rightarrow> cv_size \<Rightarrow> real" where
  "calculateDocumentScore cv d contour image_size =
     (if length contour < 4 then 0
      else
        let area = contourArea cv contour;
            image_area = real_of_int (int_mul (width image_size) (height image_size));
            area_ratio = area / image_area;
            area_score =
              (if area_ratio \<ge> 0.002 \<and> area_ratio \<le> 0.99 then
                 (if area_ratio \<ge> 0.01 \<and> area_ratio \<le> 0.7 then 1.0
                  else if area_ratio > 0.85 then 0.9
                  else 0.5)
               else 0.0);
            bounds = boundingRect cv contour;
            aspect_ratio = real_of_int (rect_width bounds) / real_of_int (rect_height bounds);
            aspect_diff = \<bar>aspect_ratio - target_aspect_ratio d\<bar> / target_aspect_ratio d;
            aspect_score =
              (if target_aspect_ratio d = 0 then 0.0
               else if aspect_diff \<le> aspect_ratio_tolerance d
               then 1.0 - aspect_diff / aspect_ratio_tolerance d else 0.0);
            shape_score =
              (if length contour = 4 then 1.0
               else if length contour \<ge> 4 \<and> length contour \<le> 8 then 0.8
               else if length contour > 8 \<and> length contour \<le> 12 then 0.5
               else 0.0);
            center = minEnclosingCircle cv contour;
            image_center = (real_of_int (width image_size) / 2, real_of_int (height image_size) / 2);
            distance_from_center =
              norm2 (fst center - fst image_center) (snd center - snd image_center);
            max_distance =
              norm2 (real_of_int (width image_size) / 2) (real_of_int (height image_size) / 2);
            position_score = 1.0 - distance_from_center / max_distance
        in area_score * 0.25 + aspect_score * 0.4 + shape_score * 0.15 + position_score * 0.2)"

text \<open>
  The four sub-scores of section 4.4 of the specification, written from its words.
\<close>

definition areaScore :: "real \<Rightarrow> real" where
  "areaScore areaRatio =
     (if areaRatio < 0.002 \<or> 0.99 < areaRatio then 0
      else if 0.01 \<le> areaRatio \<and> areaRatio \<le> 0.70 then 1.0
      else if areaRatio > 0.85 then 0.9
      else 0.5)"

definition aspectScore :: "real \<Rightarrow> real \<Rightarrow> real \<Rightarrow> real" where
  "aspectScore target tolerance aspectRatio =
     max 0 (1 - \<bar>aspectRatio - target\<bar> / (target * tolerance))"

definition shapeScore :: "nat \<Rightarrow> real" where
  "shapeScore vertices =
     (if vertices = 4 then 1.0
      else if 4 \<le> vertices \<and> vertices \<le> 8 then 0.8
      else if 9 \<le> vertices \<and> vertices \<le> 12 then 0.5
      else 0)"

definition centerednessScore :: "real \<times> real \<Rightarrow> cv_size \<Rightarrow> real" where
  "centerednessScore c image_size =
     1 - norm2 (fst c - real_of_int (width image_size) / 2)
               (snd c - real_of_int (height image_size) / 2)
         / norm2 (real_of_int (width image_size) / 2) (real_of_int (height image_size) / 2)"

definition weighted_sum ::
  "'px opencv \<Rightarrow> ISO_ID1_DocumentDetector \<Rightarrow> contour \<Rightarrow> cv_size \<Rightarrow> real" where
  "weighted_sum cv d contour image_size =
     0.25 * areaScore (contourArea cv contour
                         / real_of_int (width image_size * height image_size))
     + 0.40 * aspectScore (target_aspect_ratio d) (aspect_ratio_tolerance d)
                (real_of_int (rect_width (boundingRect cv contour))
                   / real_of_int (rect_height (boundingRect cv contour)))
     + 0.15 * shapeScore (length contour)
     + 0.20 * centerednessScore (minEnclosingCircle cv contour) image_size"

section \<open>Best-candidate selection\<close>

text \<open>
  The body of the loop of \<^verbatim>\<open>findBestDocumentContour\<close> first simplifies the contour
  (\<open>approx_of\<close>) and scores the result (\<open>candidate_score\<close>); \<open>best_loop\<close> is the loop
  itself, from index \<open>i\<close> on, with the three local variables as state.
\<close>

definition approx_of :: "'px opencv \<Rightarrow> ISO_ID1_DocumentDetector \<Rightarrow> contour \<Rightarrow> contour" where
  "approx_of cv d c =
     (let epsilon = approx_epsilon_factor d * arcLength cv c
      in approxPolyDP cv c epsilon)"

definition candidate_score ::
  "'px opencv \<Rightarrow> ISO_ID1_DocumentDetector \<Rightarrow> cv_size \<Rightarrow> contour \<Rightarrow> real" where
  "candidate_score cv d image_size c = calculateDocumentScore cv d (approx_of cv d c) image_size"

fun best_loop ::
  "'px opencv \<Rightarrow> ISO_ID1_DocumentDetector \<Rightarrow> cv_size \<Rightarrow> contour list \<Rightarrow> nat
     \<Rightarrow> real \<times> int \<times> contour \<Rightarrow> real \<times> int \<times> contour" where
  "best_loop cv d image_size [] i st = st"
| "best_loop cv d image_size (c # cs) i (best_score, best_contour_index, best_contour) =
     (let approx = approx_of cv d c;
          score = calculateDocumentScore cv d approx image_size
      in best_loop cv d image_size cs (Suc i)
           (if score > best_score then (score, int i, approx)
            else (best_score, best_contour_index, best_contour)))"

definition findBestDocumentContour ::
  "'px opencv \<Rightarrow> ISO_ID1_DocumentDetector \<Rightarrow> contour list \<Rightarrow> cv_size \<Rightarrow> contour
     \<Rightarrow> bool \<times> contour" where
  "findBestDocumentContour cv d contours image_size best_contour =
     (case best_loop cv d image_size contours 0 (0, - 1, best_contour) of
        (best_score, best_contour_index, best) \<Rightarrow>
          (best_contour_index \<noteq> - 1 \<and> best_score > 0.1, best))"

section \<open>Corner resolution\<close>

text \<open>
  \<^verbatim>\<open>std::min_element\<close> and \<^verbatim>\<open>std::max_element\<close> with a comparison of one
  coordinate: both return the first of several equivalent extreme elements.
\<close>

definition min_element_by :: "(point \<Rightarrow> int) \<Rightarrow> contour \<Rightarrow> point" where
  "min_element_by key points =
     fold (\<lambda>p smallest. if key p < key smallest then p else smallest) (tl points) (hd points)"

definition max_element_by :: "(point \<Rightarrow> int) \<Rightarrow> contour \<Rightarrow> point" where
  "max_element_by key points =
     fold (\<lambda>p largest. if key largest < key p then p else largest) (tl points) (hd points)"

text \<open>
  \<^verbatim>\<open>selectFourCorners\<close>: the four extreme points, sorted by (x, y) (the order of
  pairs of integers), consecutive duplicates erased, cut to four.
\<close>

definition selectFourCorners :: "contour \<Rightarrow> contour" where
  "selectFourCorners points =
     (if length points \<le> 4 then points
      else
        let leftmost = min_element_by fst points;
            rightmost = max_element_by fst points;
            topmost = min_element_by snd points;
            bottommost = max_element_by snd points;
            corners = remdups_adj (sort [leftmost, rightmost, topmost, bottommost])
        in if length corners \<ge> 4 then take 4 corners else corners)"

definition findCornerPoints :: "'px opencv \<Rightarrow> contour \<Rightarrow> contour" where
  "findCornerPoints cv contour =
     (if length contour \<le> 4 then contour
      else
        let hull_points = convexHull cv contour in
        if length hull_points \<le> 4 then hull_points
        else
          let epsilon = 0.02 * arcLength cv hull_points;
              corners = approxPolyDP cv hull_points epsilon
          in if length corners > 4 then selectFourCorners corners else corners)"

section \<open>Corner ordering\<close>

text \<open>
  \<^verbatim>\<open>std::atan2 (y, x)\<close> on finite arguments (the arguments are differences of
  integers, so a zero is never negative).
\<close>

definition atan2 :: "real \<Rightarrow> real \<Rightarrow> real" where
  "atan2 y x =
     (if 0 < x then arctan (y / x)
      else if x < 0 then (if 0 \<le> y then arctan (y / x) + pi else arctan (y / x) - pi)
      else if 0 < y then pi / 2
      else if y < 0 then - (pi / 2)
      else 0)"

text \<open>
  The centroid of \<^verbatim>\<open>sortCornerPoints\<close>: the coordinate sums, divided by 4 with the
  truncating division of C++.
\<close>

definition centroid4 :: "contour \<Rightarrow> point" where
  "centroid4 points = (sum_list (map fst points) sdiv 4, sum_list (map snd points) sdiv 4)"

definition angle_from :: "point \<Rightarrow> point \<Rightarrow> real" where
  "angle_from centroid point =
     atan2 (real_of_int (snd point - snd centroid)) (real_of_int (fst point - fst centroid))"

text \<open>
  The search for the point nearest to (0, 0). The source starts from
  \<^verbatim>\<open>numeric_limits<double>::max()\<close>, which is above the distance of every point
  with 32-bit coordinates: the first comparison always succeeds, and \<open>None\<close> stands for
  that initial value.
\<close>

definition closer :: "real \<Rightarrow> real option \<Rightarrow> bool" where
  "closer distance min_dist_tl =
     (case min_dist_tl of None \<Rightarrow> True | Some m \<Rightarrow> distance < m)"

definition tl_step :: "(point \<times> real) list \<Rightarrow> nat \<Rightarrow> real option \<times> nat \<Rightarrow> real option \<times> nat" where
  "tl_step point_angles i st =
     (let distance = norm2 (real_of_int (fst (fst (point_angles ! i))))
                           (real_of_int (snd (fst (point_angles ! i))))
      in if closer distance (fst st) then (Some distance, i) else st)"

definition find_tl_idx :: "(point \<times> real) list \<Rightarrow> nat" where
  "find_tl_idx point_angles = snd (fold (tl_step point_angles) [0, 1, 2, 3] (None, 0))"

text \<open>
  \<^verbatim>\<open>std::sort\<close> with the comparison of the angles is modelled by \<open>sort_key snd\<close>.
  The C++ sort leaves the order of elements with equal angles open; with pairwise
  distinct angles every sorting function returns the same list.
\<close>

definition sortCornerPoints :: "contour \<Rightarrow> contour" where
  "sortCornerPoints points =
     (if length points \<noteq> 4 then points
      else
        let centroid = centroid4 points;
            point_angles = sort_key snd (map (\<lambda>point. (point, angle_from centroid point)) points);
            tl_idx = find_tl_idx point_angles
        in map (\<lambda>i. fst (point_angles ! ((tl_idx + i) mod 4))) [0, 1, 2, 3])"

text \<open>The distance of a point from the image origin (0, 0).\<close>

definition origin_distance :: "point \<Rightarrow> real" where
  "origin_distance p = norm2 (real_of_int (fst p)) (real_of_int (snd p))"

section \<open>Bounds extraction\<close>

text \<open>
  \<^verbatim>\<open>extractDocumentBounds\<close> writes the bounds only on success; the flag is the
  value returned.
\<close>

definition extractDocumentBounds ::
  "'px opencv \<Rightarrow> ISO_ID1_DocumentDetector \<Rightarrow> contour \<Rightarrow> cv_size \<Rightarrow> DocumentBounds
     \<Rightarrow> bool \<times> DocumentBounds" where
  "extractDocumentBounds cv d contour image_size bounds =
     (if length contour < 4 then (False, bounds)
      else
        let corners = (if length contour = 4 then contour else findCornerPoints cv contour) in
        if length corners \<noteq> 4 then (False, bounds)
        else
          let sorted_corners = sortCornerPoints corners in
          (True,
           bounds\<lparr>x1 := real_of_int (fst (sorted_corners ! 0)) / real_of_int (width image_size),
                  y1 := real_of_int (snd (sorted_corners ! 0)) / real_of_int (height image_size),
                  x2 := real_of_int (fst (sorted_corners ! 1)) / real_of_int (width image_size),
                  y2 := real_of_int (snd (sorted_corners ! 1)) / real_of_int (height image_size),
                  x3 := real_of_int (fst (sorted_corners ! 2)) / real_of_int (width image_size),
                  y3 := real_of_int (snd (sorted_corners ! 2)) / real_of_int (height image_size),
                  x4 := real_of_int (fst (sorted_corners ! 3)) / real_of_int (width image_size),
                  y4 := real_of_int (snd (sorted_corners ! 3)) / real_of_int (height image_size),
                  confidence := calculateDocumentScore cv d contour image_size\<rparr>))"

section \<open>The detection pipeline\<close>

text \<open>
  \<^verbatim>\<open>cvRound\<close> rounds to the nearest integer, a tie to the even one;
  \<^verbatim>\<open>static_cast<int>\<close> of a \<^verbatim>\<open>double\<close> truncates towards zero.
\<close>

definition cvRound :: "real \<Rightarrow> int" where
  "cvRound r = round_half_even r"

definition trunc_int :: "real \<Rightarrow> int" where
  "trunc_int r = (if 0 \<le> r then \<lfloor>r\<rfloor> else \<lceil>r\<rceil>)"

text \<open>
  A call either returns or is left by a C++ exception that it does not catch.
\<close>

datatype 'a outcome = Raised | Returned 'a

text \<open>
  \<^verbatim>\<open>cv::resize (src, dst, Size (0, 0), fx, fy, INTER_AREA)\<close>: the size of the result is
  (\<^verbatim>\<open>cvRound (cols * fx)\<close>, \<^verbatim>\<open>cvRound (rows * fy)\<close>), the products being those of
  doubles, and OpenCV raises \<^verbatim>\<open>cv::Exception\<close> when that size is empty.
\<close>

definition resize_to :: "'px opencv \<Rightarrow> 'px Mat \<Rightarrow> real \<Rightarrow> real \<Rightarrow> 'px Mat option" where
  "resize_to cv src fx fy =
     (let dsize = \<lparr>width = cvRound (double_mul (real_of_int (cols src)) fx),
                   height = cvRound (double_mul (real_of_int (rows src)) fy)\<rparr>
      in if width dsize \<le> 0 \<or> height dsize \<le> 0 then None
         else Some (src\<lparr>cols := width dsize, rows := height dsize,
                        pixels := resize cv src dsize\<rparr>))"

text \<open>Lines 53 to 64 of \<^verbatim>\<open>detectDocument\<close>: the scale factor and the working image.\<close>

definition scale_factor_of :: "'px Mat \<Rightarrow> real" where
  "scale_factor_of input_image =
     (let target_width = 1200 in
      if cols input_image > target_width
      then double_div (real_of_int target_width) (real_of_int (cols input_image))
      else 1.0)"

definition working_image_of :: "'px opencv \<Rightarrow> 'px Mat \<Rightarrow> 'px Mat option" where
  "working_image_of cv input_image =
     (let target_width = 1200 in
      if cols input_image > target_width
      then resize_to cv input_image (scale_factor_of input_image) (scale_factor_of input_image)
      else Some input_image)"

text \<open>
  Lines 85 to 91: the contour is mapped back to the input image. Each coordinate is
  divided by the scale factor in \<^verbatim>\<open>double\<close> and the quotient is truncated. (The scale
  factor of a call is positive.)
\<close>

definition scale_back :: "real \<Rightarrow> contour \<Rightarrow> contour" where
  "scale_back scale_factor best_contour =
     (if scale_factor \<noteq> 1.0
      then map (\<lambda>point. (trunc_int (double_div (real_of_int (fst point)) scale_factor),
                         trunc_int (double_div (real_of_int (snd point)) scale_factor)))
             best_contour
      else best_contour)"

text \<open>
  Lines 66 to 93, on the working image. The result is the flag returned, the bounds
  (the reference argument, written on success only) and the detector after the call.
\<close>

definition detect_on ::
  "'px opencv \<Rightarrow> ISO_ID1_DocumentDetector \<Rightarrow> 'px Mat \<Rightarrow> DocumentBounds \<Rightarrow> 'px Mat
     \<Rightarrow> bool \<times> DocumentBounds \<times> ISO_ID1_DocumentDetector" where
  "detect_on cv d input_image bounds working_image =
     (let d1 = adaptParametersForImageSize d (mat_size working_image) in
      case preprocessImageForID1Document cv working_image of (ok_p, preprocessed) \<Rightarrow>
      if \<not> ok_p then (False, bounds, d1)
      else
        case findDocumentContours cv d1 preprocessed of (ok_c, contours) \<Rightarrow>
        if \<not> ok_c then (False, bounds, d1)
        else
          case findBestDocumentContour cv d1 contours (mat_size working_image) [] of
            (ok_b, best_contour) \<Rightarrow>
          if \<not> ok_b then (False, bounds, d1)
          else
            case extractDocumentBounds cv d1
                   (scale_back (scale_factor_of input_image) best_contour)
                   (mat_size input_image) bounds of
              (ok_e, bounds') \<Rightarrow> (ok_e, bounds', d1))"

definition detectDocument ::
  "'px opencv \<Rightarrow> ISO_ID1_DocumentDetector \<Rightarrow> 'px Mat \<Rightarrow> DocumentBounds
     \<Rightarrow> (bool \<times> DocumentBounds \<times> ISO_ID1_DocumentDetector) outcome" where
  "detectDocument cv d input_image bounds =
     (if empty_mat input_image then Returned (False, bounds, d)
      else
        case working_image_of cv input_image of
          None \<Rightarrow> Raised
        | Some working_image \<Rightarrow> Returned (detect_on cv d input_image bounds working_image))"

text \<open>
  The local variables of the selection loop at its end, in a detection call on the given
  working image: best score, index and contour.
\<close>

definition selection ::
  "'px opencv \<Rightarrow> ISO_ID1_DocumentDetector \<Rightarrow> 'px Mat \<Rightarrow> real \<times> int \<times> contour" where
  "selection cv d working_image =
     (let d1 = adaptParametersForImageSize d (mat_size working_image);
          preprocessed = snd (preprocessImageForID1Document cv working_image);
          contours = snd (findDocumentContours cv d1 preprocessed)
      in best_loop cv d1 (mat_size working_image) contours 0 (0, - 1, []))"

section \<open>The C interface: configuration\<close>

text \<open>
  The context of \<^verbatim>\<open>id_reader_api.cpp\<close> owns a \<^verbatim>\<open>DocumentDetector\<close> (the generic
  detector of \<^verbatim>\<open>document_detector.cpp\<close>, not the ID-1 detector) and a map of strings.
\<close>

record DocumentDetector =
  dd_canny_threshold1 :: real
  dd_canny_threshold2 :: real
  dd_min_contour_area :: real
  dd_max_contour_area :: real
  dd_approx_epsilon_factor :: real

definition DocumentDetector_init :: DocumentDetector where
  "DocumentDetector_init =
     \<lparr>dd_canny_threshold1 = 50, dd_canny_threshold2 = 150,
      dd_min_contour_area = 10000, dd_max_contour_area = 500000,
      dd_approx_epsilon_factor = 0.02\<rparr>"

definition dd_setCannyThresholds :: "DocumentDetector \<Rightarrow> real \<Rightarrow> real \<Rightarrow> DocumentDetector" where
  "dd_setCannyThresholds dd threshold1 threshold2 =
     dd\<lparr>dd_canny_threshold1 := threshold1, dd_canny_threshold2 := threshold2\<rparr>"

definition dd_setContourAreaRange :: "DocumentDetector \<Rightarrow> real \<Rightarrow> real \<Rightarrow> DocumentDetector" where
  "dd_setContourAreaRange dd min_area max_area =
     dd\<lparr>dd_min_contour_area := min_area, dd_max_contour_area := max_area\<rparr>"

definition dd_setApproximationEpsilon :: "DocumentDetector \<Rightarrow> real \<Rightarrow> DocumentDetector" where
  "dd_setApproximationEpsilon dd epsilon_factor =
     dd\<lparr>dd_approx_epsilon_factor := epsilon_factor\<rparr>"

text \<open>
  The two stages of \<^verbatim>\<open>DocumentDetector::detectDocument\<close> that read the configured
  fields, \<^verbatim>\<open>preprocessImage\<close> and \<^verbatim>\<open>findContours\<close> of
  \<^verbatim>\<open>document_detector.cpp\<close>. No method called by that detection assigns a field.
\<close>

definition dd_preprocessImage :: "'px opencv \<Rightarrow> DocumentDetector \<Rightarrow> 'px Mat \<Rightarrow> bool \<times> 'px Mat" where
  "dd_preprocessImage cv dd input =
     (let gray = to_gray cv input;
          blurred = gray\<lparr>pixels := GaussianBlur cv gray 5\<rparr>;
          edges = blurred\<lparr>pixels := Canny cv blurred (dd_canny_threshold1 dd)
                                      (dd_canny_threshold2 dd)\<rparr>;
          output = edges\<lparr>pixels := morphologyEx_close cv edges 3\<rparr>
      in (True, output))"

definition dd_findContours ::
  "'px opencv \<Rightarrow> DocumentDetector \<Rightarrow> 'px Mat \<Rightarrow> bool \<times> contour list" where
  "dd_findContours cv dd edge_image =
     (let contours = findContours cv edge_image in
      if contours = [] then (False, contours)
      else
        let kept = filter (\<lambda>contour.
                     let area = contourArea cv contour
                     in \<not> (area < dd_min_contour_area dd \<or> area > dd_max_contour_area dd))
                     contours
        in (kept \<noteq> [], kept))"

record id_reader_context =
  detector :: DocumentDetector
  config :: "string \<rightharpoonup> string"

definition id_reader_context_init :: id_reader_context where
  "id_reader_context_init = \<lparr>detector = DocumentDetector_init, config = Map.empty\<rparr>"

datatype id_reader_error_t =
    ID_READER_SUCCESS
  | ID_READER_ERROR_INVALID_INPUT
  | ID_READER_ERROR_MEMORY_ALLOCATION
  | ID_READER_ERROR_PROCESSING_FAILED
  | ID_READER_ERROR_NO_DOCUMENT_FOUND
  | ID_READER_ERROR_UNSUPPORTED_FORMAT
  | ID_READER_ERROR_INITIALIZATION_FAILED

text \<open>
  \<^verbatim>\<open>id_reader_set_config\<close>. A null pointer is \<open>None\<close>. \<^verbatim>\<open>std::stod\<close> belongs to
  the C++ library and is a parameter: \<open>None\<close> is the exception it throws on a string
  that is not a number, which the function catches after the map has been written.
  \<open>apply_key\<close> is the chain of comparisons of the key inside the \<^verbatim>\<open>try\<close> block, run
  on the context whose map already holds the pair. The result is the error code and the
  context after the call.
\<close>

definition apply_key ::
  "(string \<Rightarrow> real option) \<Rightarrow> id_reader_context \<Rightarrow> string \<Rightarrow> string
     \<Rightarrow> id_reader_error_t \<times> id_reader_context" where
  "apply_key stod context key val =
     (if key = ''canny_threshold1'' then
        (case stod val of
           None \<Rightarrow> (ID_READER_ERROR_PROCESSING_FAILED, context)
         | Some threshold \<Rightarrow>
             (ID_READER_SUCCESS,
              context\<lparr>detector := dd_setCannyThresholds (detector context) threshold 150\<rparr>))
      else if key = ''canny_threshold2'' then
        (case stod val of
           None \<Rightarrow> (ID_READER_ERROR_PROCESSING_FAILED, context)
         | Some threshold \<Rightarrow>
             (ID_READER_SUCCESS,
              context\<lparr>detector := dd_setCannyThresholds (detector context) 50 threshold\<rparr>))
      else if key = ''min_contour_area'' then
        (case stod val of
           None \<Rightarrow> (ID_READER_ERROR_PROCESSING_FAILED, context)
         | Some area \<Rightarrow>
             (ID_READER_SUCCESS,
              context\<lparr>detector := dd_setContourAreaRange (detector context) area 500000\<rparr>))
      else if key = ''max_contour_area'' then
        (case stod val of
           None \<Rightarrow> (ID_READER_ERROR_PROCESSING_FAILED, context)
         | Some area \<Rightarrow>
             (ID_READER_SUCCESS,
              context\<lparr>detector := dd_setContourAreaRange (detector context) 10000 area\<rparr>))
      else (ID_READER_SUCCESS, context))"

definition id_reader_set_config ::
  "(string \<Rightarrow> real option) \<Rightarrow> id_reader_context option \<Rightarrow> string option \<Rightarrow> string option
     \<Rightarrow> id_reader_error_t \<times> id_reader_context option" where
  "id_reader_set_config stod context key val =
     (case (context, key, val) of
        (Some c, Some k, Some v) \<Rightarrow>
          (case apply_key stod (c\<lparr>config := (config c)(k \<mapsto> v)\<rparr>) k v of
             (err, c') \<Rightarrow> (err, Some c'))
      | _ \<Rightarrow> (ID_READER_ERROR_INVALID_INPUT, context))"

section \<open>Reference primitives and inputs for evaluation\<close>

text \<open>
  To evaluate the detector at concrete inputs the library operations are instantiated
  by \<open>ref_cv\<close>. An image of this instance carries, as its pixel content, the closed
  outlines that edge detection finds in it; the image filters keep them and
  \<^verbatim>\<open>resize\<close> scales them. The area is the shoelace formula and the bounding
  rectangle is inclusive of both end pixels, as in OpenCV. Polygon approximation and
  convex hull return the contour given, and the enclosing circle is centred at the centre
  of the bounding box: this is what OpenCV computes on the contours evaluated below
  (axis-parallel rectangles and right triangles with axis-parallel legs, with sides far
  longer than the approximation tolerance).
\<close>

fun shoelace :: "point \<Rightarrow> contour \<Rightarrow> int" where
  "shoelace prev [] = 0"
| "shoelace prev (p # ps) = (fst prev * snd p - snd prev * fst p) + shoelace p ps"

definition ref_contourArea :: "contour \<Rightarrow> real" where
  "ref_contourArea c = (if c = [] then 0 else \<bar>real_of_int (shoelace (last c) c)\<bar> / 2)"

fun path_length :: "point \<Rightarrow> contour \<Rightarrow> real" where
  "path_length prev [] = 0"
| "path_length prev (p # ps) =
     norm2 (real_of_int (fst p - fst prev)) (real_of_int (snd p - snd prev)) + path_length p ps"

definition ref_arcLength :: "contour \<Rightarrow> real" where
  "ref_arcLength c = (if c = [] then 0 else path_length (last c) c)"

definition min_list_of :: "int list \<Rightarrow> int" where
  "min_list_of xs = fold min xs (hd xs)"

definition max_list_of :: "int list \<Rightarrow> int" where
  "max_list_of xs = fold max xs (hd xs)"

definition ref_boundingRect :: "contour \<Rightarrow> rect" where
  "ref_boundingRect c =
     (if c = [] then \<lparr>rect_x = 0, rect_y = 0, rect_width = 0, rect_height = 0\<rparr>
      else \<lparr>rect_x = min_list_of (map fst c), rect_y = min_list_of (map snd c),
            rect_width = max_list_of (map fst c) - min_list_of (map fst c) + 1,
            rect_height = max_list_of (map snd c) - min_list_of (map snd c) + 1\<rparr>)"

definition ref_minEnclosingCircle :: "contour \<Rightarrow> real \<times> real" where
  "ref_minEnclosingCircle c =
     (if c = [] then (0, 0)
      else (real_of_int (min_list_of (map fst c) + max_list_of (map fst c)) / 2,
            real_of_int (min_list_of (map snd c) + max_list_of (map snd c)) / 2))"

definition ref_resize :: "contour list Mat \<Rightarrow> cv_size \<Rightarrow> contour list" where
  "ref_resize m dsize =
     map (map (\<lambda>p. (fst p * width dsize div cols m, snd p * height dsize div rows m)))
       (pixels m)"

definition ref_cv :: "contour list opencv" where
  "ref_cv =
     \<lparr>resize = ref_resize,
      cvtColor = (\<lambda>m code. pixels m),
      CLAHE_apply = pixels,
      GaussianBlur = (\<lambda>m ksize. pixels m),
      meanStdDev = (\<lambda>m. (128, 40)),
      Canny = (\<lambda>m lo hi. pixels m),
      morphologyEx_close = (\<lambda>m ksize. pixels m),
      findContours = pixels,
      contourArea = ref_contourArea,
      arcLength = ref_arcLength,
      approxPolyDP = (\<lambda>c epsilon. c),
      boundingRect = ref_boundingRect,
      minEnclosingCircle = ref_minEnclosingCircle,
      convexHull = (\<lambda>c. c)\<rparr>"

text \<open>Contours used for evaluation: a card outline centred in a 1200 x 800 frame, and a
  triangle (what polygon approximation leaves of a clipped corner).\<close>

definition id1_frame :: contour where
  "id1_frame = [(400, 274), (800, 274), (800, 526), (400, 526)]"

definition id1_frame_turned :: contour where
  "id1_frame_turned = [(800, 274), (800, 526), (400, 526), (400, 274)]"

definition corner_triangle :: contour where
  "corner_triangle = [(50, 50), (150, 50), (50, 112)]"

text \<open>Outlines for evaluation in a 1200 x 800 frame: a diamond touching all four borders
  and a speck.\<close>

definition diamond :: contour where
  "diamond = [(600, 0), (1199, 400), (600, 799), (0, 400)]"

definition speck :: contour where
  "speck = [(10, 10), (20, 10), (20, 20), (10, 20)]"

definition edge_map_1200 :: "contour list Mat" where
  "edge_map_1200 = \<lparr>cols = 1200, rows = 800, channels = 1, pixels = [speck, id1_frame, diamond]\<rparr>"

definition working_detector :: ISO_ID1_DocumentDetector where
  "working_detector =
     adaptParametersForImageSize ISO_ID1_DocumentDetector_init \<lparr>width = 1200, height = 800\<rparr>"

text \<open>A detector configured through its setters before a call.\<close>

definition configured_detector :: ISO_ID1_DocumentDetector where
  "configured_detector =
     setCannyThresholds (setAreaRatios ISO_ID1_DocumentDetector_init 0.5 0.9) 100 200"

text \<open>Corners for evaluation: a rhombus, and the same corners in another order.\<close>

definition rhombus :: contour where
  "rhombus = [(50, 10), (90, 50), (50, 90), (10, 50)]"

text \<open>
  The centroid of four points as a point of the plane, and the angle of a point from it:
  the reading of section 4.6 of the specification.
\<close>

definition centroid_exact :: "contour \<Rightarrow> real \<times> real" where
  "centroid_exact points =
     (real_of_int (sum_list (map fst points)) / 4, real_of_int (sum_list (map snd points)) / 4)"

definition angle_exact :: "real \<times> real \<Rightarrow> point \<Rightarrow> real" where
  "angle_exact c p = atan2 (real_of_int (snd p) - snd c) (real_of_int (fst p) - fst c)"

text \<open>
  Four corners whose centroid (10.5, 10.75) has no integer coordinates, and the same
  corners with the first two exchanged.
\<close>

definition skew_corners :: contour where
  "skew_corners = [(11, 11), (12, 12), (9, 9), (10, 11)]"

definition skew_corners_swapped :: contour where
  "skew_corners_swapped = [(12, 12), (11, 11), (9, 9), (10, 11)]"

definition rhombus_shuffled :: contour where
  "rhombus_shuffled = [(50, 90), (50, 10), (10, 50), (90, 50)]"

definition photo_1200 :: "contour list Mat" where
  "photo_1200 = \<lparr>cols = 1200, rows = 800, channels = 3, pixels = [speck, id1_frame]\<rparr>"

text \<open>
  Images for evaluation: a 2400 x 1600 photograph with a card outline, a 1200 x 800
  photograph with a speck and a card outline, a tall photograph and a one-pixel-high
  strip.
\<close>

definition photo_2400 :: "contour list Mat" where
  "photo_2400 =
     \<lparr>cols = 2400, rows = 1600, channels = 3,
      pixels = [[(800, 548), (1600, 548), (1600, 1052), (800, 1052)]]\<rparr>"

text \<open>The working image of the 2400 x 1600 photograph.\<close>

definition photo_2400_working :: "contour list Mat" where
  "photo_2400_working = \<lparr>cols = 1200, rows = 800, channels = 3, pixels = [id1_frame]\<rparr>"

text \<open>The card outline of the 2400 x 1600 photograph, in its own pixel space.\<close>

definition card_2400 :: contour where
  "card_2400 = [(800, 548), (1600, 548), (1600, 1052), (800, 1052)]"

definition tall_photo :: "contour list Mat" where
  "tall_photo = \<lparr>cols = 1000, rows = 3000, channels = 3, pixels = []\<rparr>"

definition strip_photo :: "contour list Mat" where
  "strip_photo = \<lparr>cols = 5000, rows = 1, channels = 3, pixels = []\<rparr>"

text \<open>
  For evaluation: a reader of non-empty strings of decimal digits, on which it agrees
  with \<^verbatim>\<open>std::stod\<close>.
\<close>

fun digits_value :: "string \<Rightarrow> nat \<Rightarrow> nat option" where
  "digits_value [] acc = Some acc"
| "digits_value (c # cs) acc =
     (if 48 \<le> (of_char c :: nat) \<and> (of_char c :: nat) \<le> 57
      then digits_value cs (10 * acc + (of_char c - 48))
      else None)"

definition stod_digits :: "string \<Rightarrow> real option" where
  "stod_digits s = (if s = [] then None else map_option real (digits_value s 0))"

text \<open>A context in which the second Canny threshold has been configured to 200.\<close>

definition context_200 :: id_reader_context where
  "context_200 =
     \<lparr>detector = DocumentDetector_init\<lparr>dd_canny_threshold2 := 200\<rparr>,
      config = [''canny_threshold2'' \<mapsto> ''200'']\<rparr>"

text \<open>A context in which the minimum contour area has been configured to 200000.\<close>

definition context_min_area :: id_reader_context where
  "context_min_area =
     \<lparr>detector = DocumentDetector_init\<lparr>dd_min_contour_area := 200000,
                                          dd_max_contour_area := 500000\<rparr>,
      config = [''min_contour_area'' \<mapsto> ''200000'']\<rparr>"

section \<open>Properties of the machine arithmetic\<close>

lemma int_mul_exact:
  "- (2 ^ 31) \<le> a * b \<Longrightarrow> a * b \<le> 2 ^ 31 - 1 \<Longrightarrow> int_mul a b = a * b"
  unfolding int_mul_def by simp

lemma round_half_even_near: "\<bar>real_of_int (round_half_even r) - r\<bar> \<le> 1 / 2"
  unfolding round_half_even_def Let_def by (auto; linarith)

lemma round_half_even_of_int: "round_half_even (real_of_int n) = n"
  unfolding round_half_even_def Let_def by simp

lemma ulp_pos: "0 < ulp x"
  unfolding ulp_def by simp

lemma floor_log2_eq:
  assumes "2 powi e \<le> \<bar>x\<bar>" and "\<bar>x\<bar> < 2 powi (e + 1)"
  shows "\<lfloor>log 2 \<bar>x\<bar>\<rfloor> = e"
proof -
  have pos: "0 < \<bar>x\<bar>" using assms(1) by (smt (verit) zero_less_power_int)
  have "(2::real) powr real_of_int e \<le> \<bar>x\<bar>" using assms(1) by (simp add: powr_real_of_int')
  moreover have "\<bar>x\<bar> < (2::real) powr (real_of_int e + 1)"
    using assms(2) powr_real_of_int' [of 2 "e + 1"] by simp
  ultimately show ?thesis using pos by (simp add: floor_log_eq_powr_iff)
qed

lemma ulp_eval:
  assumes "2 powi e \<le> \<bar>x\<bar>" and "\<bar>x\<bar> < 2 powi (e + 1)"
  shows "ulp x = 2 powi (e - 52)"
  unfolding ulp_def using floor_log2_eq [OF assms] by simp

lemma ulp_le:
  assumes "x \<noteq> 0"
  shows "ulp x \<le> \<bar>x\<bar> * 2 powi (- 52)"
proof -
  define e where "e = \<lfloor>log 2 \<bar>x\<bar>\<rfloor>"
  have pos: "0 < \<bar>x\<bar>" using assms by simp
  have "(2::real) powr real_of_int e \<le> \<bar>x\<bar>"
    using floor_log_eq_powr_iff [of "\<bar>x\<bar>" 2 e] pos e_def by simp
  hence "(2::real) powi e \<le> \<bar>x\<bar>" by (simp add: powr_real_of_int')
  moreover have "ulp x = 2 powi e * 2 powi (- 52)"
    unfolding ulp_def e_def [symmetric] by (simp add: power_int_diff power_int_minus field_simps)
  ultimately show ?thesis by simp
qed

lemma double_of_abs_err: "\<bar>double_of x - x\<bar> \<le> ulp x / 2"
proof (cases "x = 0")
  case True
  thus ?thesis unfolding double_of_def using ulp_pos [of x] by simp
next
  case False
  have "\<bar>real_of_int (round_half_even (x / ulp x)) - x / ulp x\<bar> \<le> 1 / 2"
    by (rule round_half_even_near)
  hence "\<bar>real_of_int (round_half_even (x / ulp x)) - x / ulp x\<bar> * ulp x \<le> 1 / 2 * ulp x"
    using ulp_pos [of x] by (simp add: mult_right_mono)
  moreover have "\<bar>real_of_int (round_half_even (x / ulp x)) - x / ulp x\<bar> * ulp x
                   = \<bar>double_of x - x\<bar>"
  proof -
    have "\<bar>real_of_int (round_half_even (x / ulp x)) - x / ulp x\<bar> * ulp x
            = \<bar>(real_of_int (round_half_even (x / ulp x)) - x / ulp x) * ulp x\<bar>"
      using ulp_pos [of x] by (simp add: abs_mult)
    also have "(real_of_int (round_half_even (x / ulp x)) - x / ulp x) * ulp x = double_of x - x"
      using False ulp_pos [of x] unfolding double_of_def by (simp add: field_simps)
    finally show ?thesis .
  qed
  ultimately show ?thesis by simp
qed

text \<open>The relative error of a rounding is at most \<open>2 ^ - 53\<close>.\<close>

lemma double_of_rel_err: "\<bar>double_of x - x\<bar> \<le> \<bar>x\<bar> * 2 powi (- 53)"
proof (cases "x = 0")
  case True
  thus ?thesis unfolding double_of_def by simp
next
  case False
  have "\<bar>double_of x - x\<bar> \<le> ulp x / 2" by (rule double_of_abs_err)
  also have "\<dots> \<le> (\<bar>x\<bar> * 2 powi (- 52)) / 2" using ulp_le [OF False] by simp
  also have "\<dots> = \<bar>x\<bar> * 2 powi (- 53)" by (simp add: power_int_minus)
  finally show ?thesis .
qed

text \<open>A number with at most 53 significant bits is a double: rounding leaves it.\<close>

lemma double_of_exact:
  assumes "x = real_of_int m * 2 powi k" and "\<bar>m\<bar> < 2 ^ 53"
  shows "double_of x = x"
proof (cases "m = 0")
  case True
  thus ?thesis using assms(1) unfolding double_of_def by simp
next
  case False
  define e where "e = \<lfloor>log 2 \<bar>x\<bar>\<rfloor>"
  have x0: "x \<noteq> 0" using False assms(1) by simp
  have u: "ulp x = 2 powi (e - 52)" unfolding ulp_def e_def by simp
  have "(2::real) powr real_of_int e \<le> \<bar>x\<bar>"
    using floor_log_eq_powr_iff [of "\<bar>x\<bar>" 2 e] x0 e_def by simp
  hence lo: "(2::real) powi e \<le> \<bar>x\<bar>" by (simp add: powr_real_of_int')
  have "\<bar>x\<bar> = real_of_int \<bar>m\<bar> * 2 powi k" unfolding assms(1) by (simp add: abs_mult)
  also have "\<dots> < 2 ^ 53 * 2 powi k"
  proof -
    have "real_of_int \<bar>m\<bar> < real_of_int (2 ^ 53)" using assms(2) by (simp only: of_int_less_iff)
    thus ?thesis by simp
  qed
  also have "\<dots> = 2 powi (53 + k)" by (simp add: power_int_add)
  finally have hi: "\<bar>x\<bar> < 2 powi (53 + k)" .
  have "e < 53 + k"
  proof (rule ccontr)
    assume "\<not> e < 53 + k"
    hence "(2::real) powi (53 + k) \<le> 2 powi e" by (intro power_int_increasing) auto
    thus False using lo hi by linarith
  qed
  hence n0: "0 \<le> k - e + 52" by simp
  have "x / ulp x = x / 2 powi (e - 52)" by (simp only: u)
  also have "\<dots> = real_of_int m * (2 powi k / 2 powi (e - 52))" unfolding assms(1) by simp
  also have "2 powi k / (2::real) powi (e - 52) = 2 powi (k - e + 52)"
    by (simp add: power_int_diff power_int_add field_simps)
  also have "\<dots> = 2 ^ nat (k - e + 52)" using n0 by (simp add: power_int_nonneg_exp)
  finally have q: "x / ulp x = real_of_int (m * 2 ^ nat (k - e + 52))" by simp
  have "round_half_even (x / ulp x) = m * 2 ^ nat (k - e + 52)"
    unfolding q by (rule round_half_even_of_int)
  hence "double_of x = (x / ulp x) * ulp x" unfolding double_of_def using x0 q by simp
  thus ?thesis using ulp_pos [of x] by simp
qed

lemma double_of_int: "\<bar>n\<bar> < 2 ^ 53 \<Longrightarrow> double_of (real_of_int n) = real_of_int n"
  using double_of_exact [of "real_of_int n" n 0] by simp

lemma double_of_half: "double_of (1 / 2) = 1 / 2"
  using double_of_exact [of "1 / 2" 1 "- 1"] by (simp add: power_int_minus)

text \<open>The rounding of a number whose binary exponent is known.\<close>

lemma double_of_eval:
  assumes "2 powi e \<le> \<bar>x\<bar>" and "\<bar>x\<bar> < 2 powi (e + 1)"
  shows "double_of x = real_of_int (round_half_even (x / 2 powi (e - 52))) * 2 powi (e - 52)"
proof -
  have "x \<noteq> 0" using assms(1) by (smt (verit) zero_less_power_int abs_zero)
  thus ?thesis unfolding double_of_def ulp_eval [OF assms] by simp
qed

text \<open>Bounds of a rounded positive number.\<close>

lemma double_of_bounds:
  assumes "0 < x"
  shows "x * (1 - 2 powi (- 53)) \<le> double_of x" and "double_of x \<le> x * (1 + 2 powi (- 53))"
proof -
  have a: "\<bar>double_of x - x\<bar> \<le> x * 2 powi (- 53)"
    using double_of_rel_err [of x] assms by simp
  have "x * (1 - 2 powi (- 53)) = x - x * 2 powi (- 53)" by (simp add: algebra_simps)
  thus "x * (1 - 2 powi (- 53)) \<le> double_of x" using a by linarith
  have "x * (1 + 2 powi (- 53)) = x + x * 2 powi (- 53)" by (simp add: algebra_simps)
  thus "double_of x \<le> x * (1 + 2 powi (- 53))" using a by linarith
qed

lemma double_of_pos: "0 < x \<Longrightarrow> 0 < double_of x"
proof -
  assume x: "0 < x"
  have "(2::real) powi (- 53) < 1" by (simp add: power_int_minus)
  hence "0 < x * (1 - 2 powi (- 53))" using x by simp
  thus ?thesis using double_of_bounds(1) [OF x] by linarith
qed

lemma double_of_nonneg: "0 \<le> x \<Longrightarrow> 0 \<le> double_of x"
  using double_of_pos [of x] by (cases "x = 0") (simp_all add: double_of_def)

section \<open>Properties of the parameter selector\<close>

lemma adapt_target_unchanged:
  "target_aspect_ratio (adaptParametersForImageSize d sz) = target_aspect_ratio d"
  by (simp add: adaptParametersForImageSize_def Let_def)

lemma adapt_tolerance_pos:
  "0 < aspect_ratio_tolerance (adaptParametersForImageSize d sz)"
  by (simp add: adaptParametersForImageSize_def Let_def)

lemma adapt_independent:
  "target_aspect_ratio d = target_aspect_ratio d' \<Longrightarrow>
   adaptParametersForImageSize d sz = adaptParametersForImageSize d' sz"
  by (cases d, cases d') (simp add: adaptParametersForImageSize_def Let_def)

text \<open>
  C8: for every image size with positive width and height the selector returns the row
  of the table for the smaller dimension, with minAreaRatio halved and aspectTolerance
  multiplied by 1.2 when larger/smaller dimension exceeds 2.5; the result has
  0 < minAreaRatio < maxAreaRatio and positive thresholds, and the target aspect ratio
  is not touched.
\<close>

theorem adaptParameters_table:
  assumes "0 < w" and "0 < h"
  shows "bundle_of (adaptParametersForImageSize d \<lparr>width = w, height = h\<rparr>) = selector_bundle w h
       \<and> 0 < min_contour_area_ratio (adaptParametersForImageSize d \<lparr>width = w, height = h\<rparr>)
       \<and> min_contour_area_ratio (adaptParametersForImageSize d \<lparr>width = w, height = h\<rparr>)
           < max_contour_area_ratio (adaptParametersForImageSize d \<lparr>width = w, height = h\<rparr>)
       \<and> 0 < canny_threshold1 (adaptParametersForImageSize d \<lparr>width = w, height = h\<rparr>)
       \<and> 0 < canny_threshold2 (adaptParametersForImageSize d \<lparr>width = w, height = h\<rparr>)
       \<and> 0 < approx_epsilon_factor (adaptParametersForImageSize d \<lparr>width = w, height = h\<rparr>)
       \<and> 0 < aspect_ratio_tolerance (adaptParametersForImageSize d \<lparr>width = w, height = h\<rparr>)"
proof -
  from assms have m: "min w h \<noteq> 0" by simp
  show ?thesis
    using m
    by (simp add: adaptParametersForImageSize_def selector_bundle_def selector_row_def
        bundle_of_def wide_image_def Let_def)
qed

theorem adaptParameters_table_witness:
  "bundle_of (adaptParametersForImageSize ISO_ID1_DocumentDetector_init \<lparr>width = 1200, height = 300\<rparr>)
     = (30, 90, 0.025, 0.95, 0.02, 0.6)
   \<and> bundle_of (adaptParametersForImageSize ISO_ID1_DocumentDetector_init \<lparr>width = 1200, height = 300\<rparr>)
     = selector_bundle 1200 300"
  using adaptParameters_table [of 1200 300 ISO_ID1_DocumentDetector_init]
  by (simp add: selector_bundle_def selector_row_def)

section \<open>Properties of the document score\<close>

lemma norm2_nonneg: "0 \<le> norm2 a b"
  by (simp add: norm2_def)

lemma areaScore_le_1: "areaScore r \<le> 1"
  by (simp add: areaScore_def)

lemma aspectScore_le_1: "0 < t \<Longrightarrow> 0 < tol \<Longrightarrow> aspectScore t tol r \<le> 1"
  by (simp add: aspectScore_def)

lemma shapeScore_le_1: "shapeScore n \<le> 1"
  by (simp add: shapeScore_def)

lemma centerednessScore_le_1: "centerednessScore c sz \<le> 1"
  by (simp add: centerednessScore_def norm2_nonneg)

lemma weighted_sum_le_1:
  assumes "0 < target_aspect_ratio d" and "0 < aspect_ratio_tolerance d"
  shows "weighted_sum cv d contour sz \<le> 1"
proof -
  have "0.25 * areaScore a + 0.40 * aspectScore t tol r + 0.15 * shapeScore n
          + 0.20 * centerednessScore c sz \<le> 1"
    if "0 < t" "0 < tol" for a t tol r n c
    using areaScore_le_1 [of a] aspectScore_le_1 [OF that, of r] shapeScore_le_1 [of n]
      centerednessScore_le_1 [of c sz]
    by simp
  with assms show ?thesis
    unfolding weighted_sum_def by blast
qed

lemma score_few_vertices: "length contour < 4 \<Longrightarrow> calculateDocumentScore cv d contour sz = 0"
  by (simp add: calculateDocumentScore_def)

lemma code_area_score:
  "(if r \<ge> 0.002 \<and> r \<le> 0.99 then
      (if r \<ge> 0.01 \<and> r \<le> 0.7 then 1.0 else if r > 0.85 then 0.9 else 0.5)
    else 0.0) = areaScore r"
  by (simp add: areaScore_def not_le not_less)

lemma code_aspect_score:
  assumes "0 < t" and "0 < tol"
  shows "(if \<bar>r - t\<bar> / t \<le> tol then 1.0 - \<bar>r - t\<bar> / t / tol else 0.0) = aspectScore t tol r"
proof -
  have eq: "\<bar>r - t\<bar> / (t * tol) = \<bar>r - t\<bar> / t / tol" by simp
  have "\<bar>r - t\<bar> / t / tol \<le> 1 \<longleftrightarrow> \<bar>r - t\<bar> / t \<le> tol"
    using assms(2) by (rule divide_le_eq_1_pos)
  then show ?thesis
    unfolding aspectScore_def eq by (simp add: max_def)
qed

lemma code_shape_score:
  "4 \<le> n \<Longrightarrow>
   (if n = 4 then 1.0 else if n \<ge> 4 \<and> n \<le> 8 then 0.8 else if n > 8 \<and> n \<le> 12 then 0.5 else (0.0::real))
     = shapeScore n"
  by (simp add: shapeScore_def)

text \<open>The score of a contour with at least four vertices, in terms of the sub-scores.\<close>

lemma score_sub_scores:
  assumes "4 \<le> length contour"
    and "0 < target_aspect_ratio d" and "0 < aspect_ratio_tolerance d"
  shows "calculateDocumentScore cv d contour sz
           = 0.25 * areaScore (contourArea cv contour
                                 / real_of_int (int_mul (width sz) (height sz)))
             + 0.40 * aspectScore (target_aspect_ratio d) (aspect_ratio_tolerance d)
                 (real_of_int (rect_width (boundingRect cv contour))
                    / real_of_int (rect_height (boundingRect cv contour)))
             + 0.15 * shapeScore (length contour)
             + 0.20 * centerednessScore (minEnclosingCircle cv contour) sz"
proof -
  from assms(1) have n: "(length contour < 4) = False" by simp
  from assms(2) have t: "(target_aspect_ratio d = 0) = False" by simp
  show ?thesis
    unfolding calculateDocumentScore_def Let_def centerednessScore_def
    apply (simp only: n t if_False code_area_score code_aspect_score [OF assms(2,3)]
        code_shape_score [OF assms(1)] fst_conv snd_conv)
    apply simp
    done
qed

lemma score_eq_weighted_sum:
  assumes "4 \<le> length contour"
    and "0 < target_aspect_ratio d" and "0 < aspect_ratio_tolerance d"
    and "0 < width sz" and "0 < height sz" and "width sz * height sz \<le> 2 ^ 31 - 1"
  shows "calculateDocumentScore cv d contour sz = weighted_sum cv d contour sz"
proof -
  have "0 < width sz * height sz" using assms(4,5) by simp
  hence "int_mul (width sz) (height sz) = width sz * height sz"
    using assms(6) by (intro int_mul_exact) simp_all
  thus ?thesis
    unfolding score_sub_scores [OF assms(1-3)] weighted_sum_def by simp
qed

lemma ref_cv_simps:
  "contourArea ref_cv = ref_contourArea"
  "arcLength ref_cv = ref_arcLength"
  "approxPolyDP ref_cv = (\<lambda>c epsilon. c)"
  "boundingRect ref_cv = ref_boundingRect"
  "minEnclosingCircle ref_cv = ref_minEnclosingCircle"
  "convexHull ref_cv = (\<lambda>c. c)"
  "findContours ref_cv = pixels"
  by (simp_all add: ref_cv_def)

text \<open>
  C2 (as amended): with a positive target aspect ratio and tolerance, and for an image
  size of positive width and height whose product is at most \<open>2 ^ 31 - 1\<close> (so that the
  \<^verbatim>\<open>int\<close> product of line 212 is the image area), the score of a contour with at least
  four vertices is the weighted sum
  0.25 areaScore + 0.40 aspectScore + 0.15 shapeScore + 0.20 centerednessScore of the
  specification, the score of a contour with fewer than four vertices is 0, and the score
  never exceeds 1.
\<close>

theorem calculateDocumentScore_weighted:
  assumes "0 < target_aspect_ratio d" and "0 < aspect_ratio_tolerance d"
    and "0 < width sz" and "0 < height sz" and "width sz * height sz \<le> 2 ^ 31 - 1"
  shows "calculateDocumentScore cv d contour sz
           = (if length contour < 4 then 0 else weighted_sum cv d contour sz)
       \<and> calculateDocumentScore cv d contour sz \<le> 1"
proof (cases "length contour < 4")
  case True
  then show ?thesis by (simp add: score_few_vertices)
next
  case False
  then have "4 \<le> length contour" by simp
  from score_eq_weighted_sum [OF this assms, of cv]
    weighted_sum_le_1 [OF assms(1,2), of cv contour sz] False
  show ?thesis by simp
qed

lemmas ref_eval =
  ref_cv_simps ref_contourArea_def ref_boundingRect_def ref_minEnclosingCircle_def
  min_list_of_def max_list_of_def adaptParametersForImageSize_def wide_image_def
  ISO_ID1_DocumentDetector_init_def norm2_def int_mul_def Let_def

theorem calculateDocumentScore_weighted_witness:
  "calculateDocumentScore ref_cv
     (adaptParametersForImageSize ISO_ID1_DocumentDetector_init \<lparr>width = 1200, height = 800\<rparr>)
     id1_frame \<lparr>width = 1200, height = 800\<rparr>
   = weighted_sum ref_cv
       (adaptParametersForImageSize ISO_ID1_DocumentDetector_init \<lparr>width = 1200, height = 800\<rparr>)
       id1_frame \<lparr>width = 1200, height = 800\<rparr>
   \<and> calculateDocumentScore ref_cv
     (adaptParametersForImageSize ISO_ID1_DocumentDetector_init \<lparr>width = 1200, height = 800\<rparr>)
     id1_frame \<lparr>width = 1200, height = 800\<rparr> = 1403371 / 1404403"
  using calculateDocumentScore_weighted [where
     d = "adaptParametersForImageSize ISO_ID1_DocumentDetector_init \<lparr>width = 1200, height = 800\<rparr>"
     and cv = ref_cv and contour = id1_frame and sz = "\<lparr>width = 1200, height = 800\<rparr>"]
  apply (simp add: id1_frame_def)
  apply (simp add: calculateDocumentScore_def ref_eval id1_frame_def)
  done

text \<open>
  C2 as stated fails on a contour with three vertices: the score is 0, the weighted sum
  of the four sub-scores is not.
\<close>

theorem calculateDocumentScore_weighted_counterexample:
  "calculateDocumentScore ref_cv
     (adaptParametersForImageSize ISO_ID1_DocumentDetector_init \<lparr>width = 200, height = 162\<rparr>)
     corner_triangle \<lparr>width = 200, height = 162\<rparr> = 0
   \<and> 0.84 < weighted_sum ref_cv
       (adaptParametersForImageSize ISO_ID1_DocumentDetector_init \<lparr>width = 200, height = 162\<rparr>)
       corner_triangle \<lparr>width = 200, height = 162\<rparr>"
  apply (simp add: calculateDocumentScore_def corner_triangle_def)
  apply (simp add: weighted_sum_def ref_eval areaScore_def aspectScore_def shapeScore_def centerednessScore_def)
  done

section \<open>Properties of best-candidate selection\<close>

lemma best_loop_inv:
  fixes cv :: "'px opencv" and d sz
  defines "sc \<equiv> candidate_score cv d sz"
  shows "(\<forall>c \<in> set cs. sc c \<le> bs) \<and> best_loop cv d sz cs i (bs, bi, bc) = (bs, bi, bc)
       \<or> (\<exists>k < length cs. best_loop cv d sz cs i (bs, bi, bc)
                = (sc (cs ! k), int (i + k), approx_of cv d (cs ! k))
            \<and> bs < sc (cs ! k)
            \<and> (\<forall>j < k. sc (cs ! j) < sc (cs ! k))
            \<and> (\<forall>j < length cs. sc (cs ! j) \<le> sc (cs ! k)))"
proof (induction cs arbitrary: i bs bi bc)
  case Nil
  then show ?case by simp
next
  case (Cons c cs)
  let ?s = "sc c"
  have s: "calculateDocumentScore cv d (approx_of cv d c) sz = ?s"
    by (simp add: sc_def candidate_score_def)
  show ?case
  proof (cases "?s > bs")
    case True
    then have step: "best_loop cv d sz (c # cs) i (bs, bi, bc)
        = best_loop cv d sz cs (Suc i) (?s, int i, approx_of cv d c)"
      by (simp add: s Let_def)
    from Cons.IH [where i = "Suc i" and bs = ?s and bi = "int i" and bc = "approx_of cv d c"]
    show ?thesis
    proof (elim disjE conjE exE)
      assume a: "\<forall>c \<in> set cs. sc c \<le> ?s"
        and b: "best_loop cv d sz cs (Suc i) (?s, int i, approx_of cv d c) = (?s, int i, approx_of cv d c)"
      have "\<forall>j < length (c # cs). sc ((c # cs) ! j) \<le> ?s"
        using a by (auto simp: nth_Cons split: nat.splits)
      with True step b show ?thesis
        by (intro disjI2 exI [of _ 0]) simp
    next
      fix k
      assume k: "k < length cs"
        and b: "best_loop cv d sz cs (Suc i) (?s, int i, approx_of cv d c)
                  = (sc (cs ! k), int (Suc i + k), approx_of cv d (cs ! k))"
        and gt: "?s < sc (cs ! k)"
        and first: "\<forall>j < k. sc (cs ! j) < sc (cs ! k)"
        and mx: "\<forall>j < length cs. sc (cs ! j) \<le> sc (cs ! k)"
      have 1: "\<forall>j < Suc k. sc ((c # cs) ! j) < sc ((c # cs) ! Suc k)"
        using gt first by (auto simp: nth_Cons split: nat.splits)
      have 2: "\<forall>j < length (c # cs). sc ((c # cs) ! j) \<le> sc ((c # cs) ! Suc k)"
        using gt mx by (auto simp: nth_Cons split: nat.splits)
      from True gt have 3: "bs < sc ((c # cs) ! Suc k)" by simp
      from step b have 4: "best_loop cv d sz (c # cs) i (bs, bi, bc)
          = (sc ((c # cs) ! Suc k), int (i + Suc k), approx_of cv d ((c # cs) ! Suc k))"
        by simp
      from k 1 2 3 4 show ?thesis
        by (intro disjI2 exI [of _ "Suc k"]) simp
    qed
  next
    case False
    then have step: "best_loop cv d sz (c # cs) i (bs, bi, bc)
        = best_loop cv d sz cs (Suc i) (bs, bi, bc)"
      by (simp add: s Let_def)
    from Cons.IH [where i = "Suc i" and bs = bs and bi = bi and bc = bc]
    show ?thesis
    proof (elim disjE conjE exE)
      assume a: "\<forall>c \<in> set cs. sc c \<le> bs"
        and b: "best_loop cv d sz cs (Suc i) (bs, bi, bc) = (bs, bi, bc)"
      with False step show ?thesis by (intro disjI1) auto
    next
      fix k
      assume k: "k < length cs"
        and b: "best_loop cv d sz cs (Suc i) (bs, bi, bc)
                  = (sc (cs ! k), int (Suc i + k), approx_of cv d (cs ! k))"
        and gt: "bs < sc (cs ! k)"
        and first: "\<forall>j < k. sc (cs ! j) < sc (cs ! k)"
        and mx: "\<forall>j < length cs. sc (cs ! j) \<le> sc (cs ! k)"
      from False gt have cgt: "?s < sc (cs ! k)" by simp
      have 1: "\<forall>j < Suc k. sc ((c # cs) ! j) < sc ((c # cs) ! Suc k)"
        using cgt first by (auto simp: nth_Cons split: nat.splits)
      have 2: "\<forall>j < length (c # cs). sc ((c # cs) ! j) \<le> sc ((c # cs) ! Suc k)"
        using cgt mx by (auto simp: nth_Cons split: nat.splits)
      from gt have 3: "bs < sc ((c # cs) ! Suc k)" by simp
      from step b have 4: "best_loop cv d sz (c # cs) i (bs, bi, bc)
          = (sc ((c # cs) ! Suc k), int (i + Suc k), approx_of cv d ((c # cs) ! Suc k))"
        by simp
      from k 1 2 3 4 show ?thesis
        by (intro disjI2 exI [of _ "Suc k"]) simp
    qed
  qed
qed



lemma approx_of_ref: "approx_of ref_cv d c = c"
  by (simp add: approx_of_def ref_cv_def)

lemma score_id1_frame:
  "calculateDocumentScore ref_cv working_detector id1_frame \<lparr>width = 1200, height = 800\<rparr>
     = 1403371 / 1404403"
  by (simp add: calculateDocumentScore_def ref_eval id1_frame_def working_detector_def)

lemma score_id1_frame_turned:
  "calculateDocumentScore ref_cv working_detector id1_frame_turned \<lparr>width = 1200, height = 800\<rparr>
     = 1403371 / 1404403"
  by (simp add: calculateDocumentScore_def ref_eval id1_frame_turned_def working_detector_def)

lemma score_corner_triangle:
  "calculateDocumentScore ref_cv d corner_triangle sz = 0"
  by (simp add: calculateDocumentScore_def corner_triangle_def)

lemmas ref_scores =
  approx_of_ref score_id1_frame score_id1_frame_turned score_corner_triangle



section \<open>Properties of contour candidate extraction\<close>




section \<open>Properties of corner ordering\<close>

lemma centroid4_perm:
  assumes "mset qs = mset ps"
  shows "centroid4 qs = centroid4 ps"
proof -
  from assms have "mset (map fst qs) = mset (map fst ps)" "mset (map snd qs) = mset (map snd ps)"
    by simp_all
  then have "sum_list (map fst qs) = sum_list (map fst ps)"
    and "sum_list (map snd qs) = sum_list (map snd ps)"
    by (metis sum_mset_sum_list)+
  then show ?thesis by (simp add: centroid4_def)
qed

lemma sort_key_perm_unique:
  fixes k :: "'a \<Rightarrow> real"
  assumes "mset qs = mset ps" and "distinct (map k ps)"
  shows "sort_key k qs = sort_key k ps"
proof (rule sort_key_inj_key_eq)
  show "mset qs = mset (sort_key k ps)" using assms(1) by simp
  from assms(1) have "set qs = set ps" by (rule mset_eq_setD)
  with assms(2) show "inj_on k (set qs)" by (simp add: distinct_map)
  show "sorted (map k (sort_key k ps))" by simp
qed

lemma any_sort_unique:
  fixes k :: "'a \<Rightarrow> real"
  assumes "mset ys = mset ps" and "sorted (map k ys)" and "distinct (map k ps)"
  shows "ys = sort_key k ps"
proof -
  have "sort_key k ps = ys"
  proof (rule sort_key_inj_key_eq)
    show "mset ps = mset ys" using assms(1) by simp
    show "inj_on k (set ps)" using assms(3) by (simp add: distinct_map)
    show "sorted (map k ys)" by fact
  qed
  then show ?thesis by simp
qed

lemma insort_key_tagged:
  "insort_key snd (x, g x) (map (\<lambda>p. (p, g p)) ys) = map (\<lambda>p. (p, g p)) (insort_key g x ys)"
  by (induction ys) simp_all

lemma sort_key_tagged:
  "sort_key snd (map (\<lambda>p. (p, g p)) xs) = map (\<lambda>p. (p, g p)) (sort_key g xs)"
  by (induction xs) (simp_all add: insort_key_tagged)

lemma all_less_4: "(\<forall>j < (4::nat). P j) \<longleftrightarrow> P 0 \<and> P 1 \<and> P 2 \<and> P 3"
proof -
  have "j < 4 \<longleftrightarrow> j = 0 \<or> j = 1 \<or> j = 2 \<or> j = 3" for j :: nat by arith
  then show ?thesis by auto
qed

lemma nearest_fold:
  fixes D :: "nat \<Rightarrow> real"
  defines "step \<equiv> \<lambda>i st. if closer (D i) (fst st) then (Some (D i), i) else st"
  defines "k \<equiv> snd (fold step [0, 1, 2, 3] (None, 0))"
  shows "k < 4 \<and> (\<forall>j < 4. D k \<le> D j) \<and> (\<forall>j < k. D k < D j)"
  unfolding k_def step_def all_less_4
  by (auto simp: closer_def All_less_Suc eval_nat_numeral)

lemma find_tl_idx_nearest:
  "find_tl_idx pa < 4
   \<and> (\<forall>j < 4. origin_distance (fst (pa ! find_tl_idx pa)) \<le> origin_distance (fst (pa ! j)))
   \<and> (\<forall>j < find_tl_idx pa. origin_distance (fst (pa ! find_tl_idx pa)) < origin_distance (fst (pa ! j)))"
proof -
  have "tl_step pa = (\<lambda>i st. if closer (origin_distance (fst (pa ! i))) (fst st)
                               then (Some (origin_distance (fst (pa ! i))), i) else st)"
    by (simp add: tl_step_def origin_distance_def Let_def fun_eq_iff)
  then show ?thesis
    using nearest_fold [of "\<lambda>i. origin_distance (fst (pa ! i))"]
    by (simp add: find_tl_idx_def)
qed

lemma rotate4:
  assumes "length xs = 4" and "k < 4"
  shows "map (\<lambda>i. xs ! ((k + i) mod 4)) [0, 1, 2, 3] = rotate k xs"
proof (rule nth_equalityI)
  show "length (map (\<lambda>i. xs ! ((k + i) mod 4)) [0, 1, 2, 3]) = length (rotate k xs)"
    using assms by simp
  have "\<forall>i < 4. map (\<lambda>i. xs ! ((k + i) mod 4)) [0, 1, 2, 3] ! i = rotate k xs ! i"
    unfolding all_less_4 using assms by (simp add: nth_rotate)
  then show "map (\<lambda>i. xs ! ((k + i) mod 4)) [0, 1, 2, 3] ! i = rotate k xs ! i"
    if "i < length (map (\<lambda>i. xs ! ((k + i) mod 4)) [0, 1, 2, 3])" for i
    using that by simp
qed

text \<open>
  C7 (as amended): take four points and the centroid that the code computes, the
  coordinate sums divided by 4 with the truncating division of \<^verbatim>\<open>int\<close>. If the
  \<^verbatim>\<open>atan2\<close> angles of the points from that centroid are pairwise distinct (the points
  are then distinct too), \<^verbatim>\<open>sortCornerPoints\<close> returns the same list for every
  permutation of the input: the points sorted ascending by their angle from that
  centroid, rotated so that a point nearest to the origin (0, 0) comes first.
\<close>

theorem sortCornerPoints_permutation_invariant:
  assumes len: "length ps = 4"
    and perm: "mset qs = mset ps"
  defines "cx \<equiv> sum_list (map fst ps) sdiv 4"
  defines "cy \<equiv> sum_list (map snd ps) sdiv 4"
  defines "angle \<equiv> \<lambda>p. atan2 (real_of_int (snd p - cy)) (real_of_int (fst p - cx))"
  assumes distinct_angles: "distinct (map angle ps)"
  shows "sortCornerPoints qs = sortCornerPoints ps
       \<and> (\<exists>k < 4. sortCornerPoints ps = rotate k (sort_key angle ps)
             \<and> (\<forall>p \<in> set ps. origin_distance (hd (sortCornerPoints ps)) \<le> origin_distance p))"
proof -
  have g: "angle_from (centroid4 ps) = angle"
    by (simp add: angle_def cx_def cy_def angle_from_def centroid4_def fun_eq_iff)
  have angles: "distinct (map (angle_from (centroid4 ps)) ps)"
    unfolding g by (rule distinct_angles)
  let ?g = "angle_from (centroid4 ps)"
  let ?S = "sort_key ?g ps"
  let ?pa = "map (\<lambda>p. (p, ?g p)) ?S"
  let ?k = "find_tl_idx ?pa"
  from perm have lenq: "length qs = 4" using len by (metis mset_eq_length)
  have cq: "centroid4 qs = centroid4 ps" using perm by (rule centroid4_perm)
  have sq: "sort_key ?g qs = ?S" using perm angles by (rule sort_key_perm_unique)
  have rp: "sortCornerPoints ps = map (\<lambda>i. fst (?pa ! ((?k + i) mod 4))) [0, 1, 2, 3]"
    using len by (simp add: sortCornerPoints_def Let_def sort_key_tagged)
  have rq: "sortCornerPoints qs = map (\<lambda>i. fst (?pa ! ((?k + i) mod 4))) [0, 1, 2, 3]"
    using lenq len by (simp add: sortCornerPoints_def Let_def sort_key_tagged cq sq)
  have lS: "length ?S = 4" using len by simp
  have nth_pa: "fst (?pa ! j) = ?S ! j" if "j < 4" for j
    using that lS by simp
  from find_tl_idx_nearest [of ?pa]
  have k: "?k < 4"
    and near: "\<forall>j < 4. origin_distance (fst (?pa ! ?k)) \<le> origin_distance (fst (?pa ! j))"
    by blast+
  have nth_mod: "fst (?pa ! (j mod 4)) = ?S ! (j mod 4)" for j
    by (rule nth_pa) simp
  have "map (\<lambda>i. fst (?pa ! ((?k + i) mod 4))) [0, 1, 2, 3]
          = map (\<lambda>i. ?S ! ((?k + i) mod 4)) [0, 1, 2, 3]"
    unfolding nth_mod ..
  also have "\<dots> = rotate ?k ?S" using lS k by (rule rotate4)
  finally have rot: "sortCornerPoints ps = rotate ?k ?S" using rp by simp
  have hd: "hd (sortCornerPoints ps) = ?S ! ?k"
    unfolding rp using k by (simp add: nth_pa)
  have "origin_distance (hd (sortCornerPoints ps)) \<le> origin_distance p" if "p \<in> set ps" for p
  proof -
    from that have "p \<in> set ?S" by simp
    then obtain j where j: "j < 4" "p = ?S ! j"
      using lS by (metis in_set_conv_nth)
    from near j(1) have "origin_distance (fst (?pa ! ?k)) \<le> origin_distance (fst (?pa ! j))"
      by blast
    then show ?thesis
      unfolding hd j(2) using nth_pa [OF k] nth_pa [OF j(1)] by simp
  qed
  with rot k rp rq show ?thesis unfolding g [symmetric] by auto
qed

lemma rhombus_centroid: "centroid4 rhombus = (50, 50)"
  by (simp add: centroid4_def rhombus_def signed_divide_int_def)

lemma rhombus_angles:
  "map (angle_from (50, 50)) rhombus = [- (pi / 2), 0, pi / 2, pi]"
  by (simp add: rhombus_def angle_from_def atan2_def)

lemma rhombus_sorted: "sortCornerPoints rhombus = [(50, 10), (90, 50), (50, 90), (10, 50)]"
proof -
  have a: "map (\<lambda>point. (point, angle_from (50, 50) point)) rhombus
      = [((50, 10), - (pi / 2)), ((90, 50), 0), ((50, 90), pi / 2), ((10, 50), pi)]"
    by (simp add: rhombus_def angle_from_def atan2_def)
  have s: "sort_key snd [((50::int, 10::int), - (pi / 2)), ((90, 50), 0), ((50, 90), pi / 2), ((10, 50), pi)]
      = [((50, 10), - (pi / 2)), ((90, 50), 0), ((50, 90), pi / 2), ((10, 50), pi)]"
    by simp
  have t: "find_tl_idx [((50, 10), - (pi / 2)), ((90, 50), 0), ((50, 90), pi / 2), ((10, 50), pi)] = 0"
    by (simp add: find_tl_idx_def tl_step_def closer_def norm2_def)
  show ?thesis
    unfolding sortCornerPoints_def Let_def rhombus_centroid a s t
    by (simp add: rhombus_def)
qed

theorem sortCornerPoints_permutation_invariant_witness:
  "length rhombus = 4
   \<and> mset rhombus_shuffled = mset rhombus
   \<and> sum_list (map fst rhombus) sdiv 4 = 50 \<and> sum_list (map snd rhombus) sdiv 4 = 50
   \<and> map (\<lambda>p. atan2 (real_of_int (snd p - 50)) (real_of_int (fst p - 50))) rhombus
       = [- (pi / 2), 0, pi / 2, pi]
   \<and> distinct [- (pi / 2), 0, pi / 2, pi]
   \<and> sortCornerPoints rhombus_shuffled = [(50, 10), (90, 50), (50, 90), (10, 50)]"
proof -
  have 1: "length rhombus = 4" by (simp add: rhombus_def)
  have c: "sum_list (map fst rhombus) sdiv 4 = 50" "sum_list (map snd rhombus) sdiv 4 = 50"
    using rhombus_centroid by (simp_all add: centroid4_def)
  have a: "map (\<lambda>p. atan2 (real_of_int (snd p - 50)) (real_of_int (fst p - 50))) rhombus
             = [- (pi / 2), 0, pi / 2, pi]"
    by (simp add: rhombus_def atan2_def)
  have d: "distinct [- (pi / 2), 0, pi / 2, pi]"
  proof -
    have "- (pi / 2) \<noteq> pi" using pi_gt_zero by linarith
    then show ?thesis by simp
  qed
  have 2: "distinct (map (\<lambda>p. atan2 (real_of_int (snd p - sum_list (map snd rhombus) sdiv 4))
                                 (real_of_int (fst p - sum_list (map fst rhombus) sdiv 4)))
                      rhombus)"
    unfolding c a by (rule d)
  have 3: "mset rhombus_shuffled = mset rhombus"
    by (simp add: rhombus_def rhombus_shuffled_def)
  from sortCornerPoints_permutation_invariant [OF 1 3 2]
  have "sortCornerPoints rhombus_shuffled = sortCornerPoints rhombus" by blast
  with 1 3 c a d show ?thesis by (simp add: rhombus_sorted)
qed

lemma skew_corners_angles_exact:
  "map (angle_exact (centroid_exact skew_corners)) skew_corners
     = [arctan (1 / 2), arctan (5 / 6), arctan (7 / 6) - pi, arctan (- (1 / 2)) + pi]"
  by (simp add: skew_corners_def centroid_exact_def angle_exact_def atan2_def)

lemma sort_key_tied:
  fixes a b c :: real
  assumes "c < a" and "a < b"
  shows "sort_key snd [(p, a), (q, a), (r, c), (t, b)] = [(r, c), (p, a), (q, a), (t, b)]"
  using assms by simp

lemma quarter_turns: "pi / 4 - pi < pi / 4" "pi / 4 < pi / 2"
  using pi_gt_zero by linarith+

lemma skew_corners_sorted:
  "sortCornerPoints [(11, 11), (12, 12), (9, 9), (10, 11)] = [(9, 9), (11, 11), (12, 12), (10, 11)]"
proof -
  have c: "centroid4 [(11, 11), (12, 12), (9, 9), (10, 11)] = (10, 10)"
    by (simp add: centroid4_def signed_divide_int_def)
  have a: "map (\<lambda>point. (point, angle_from (10, 10) point)) [(11, 11), (12, 12), (9, 9), (10, 11)]
      = [((11, 11), pi / 4), ((12, 12), pi / 4), ((9, 9), pi / 4 - pi), ((10, 11), pi / 2)]"
    by (simp add: angle_from_def atan2_def arctan_one)
  have s: "sort_key snd [((11::int, 11::int), pi / 4), ((12, 12), pi / 4), ((9, 9), pi / 4 - pi),
                         ((10, 11), pi / 2)]
      = [((9, 9), pi / 4 - pi), ((11, 11), pi / 4), ((12, 12), pi / 4), ((10, 11), pi / 2)]"
    using quarter_turns by (rule sort_key_tied)
  have t: "find_tl_idx [((9, 9), pi / 4 - pi), ((11, 11), pi / 4), ((12, 12), pi / 4),
                        ((10, 11), pi / 2)] = 0"
    by (simp add: find_tl_idx_def tl_step_def closer_def norm2_def)
  show ?thesis
    unfolding sortCornerPoints_def Let_def c a s t by simp
qed

lemma skew_corners_swapped_sorted:
  "sortCornerPoints [(12, 12), (11, 11), (9, 9), (10, 11)] = [(9, 9), (12, 12), (11, 11), (10, 11)]"
proof -
  have c: "centroid4 [(12, 12), (11, 11), (9, 9), (10, 11)] = (10, 10)"
    by (simp add: centroid4_def signed_divide_int_def)
  have a: "map (\<lambda>point. (point, angle_from (10, 10) point)) [(12, 12), (11, 11), (9, 9), (10, 11)]
      = [((12, 12), pi / 4), ((11, 11), pi / 4), ((9, 9), pi / 4 - pi), ((10, 11), pi / 2)]"
    by (simp add: angle_from_def atan2_def arctan_one)
  have s: "sort_key snd [((12::int, 12::int), pi / 4), ((11, 11), pi / 4), ((9, 9), pi / 4 - pi),
                         ((10, 11), pi / 2)]
      = [((9, 9), pi / 4 - pi), ((12, 12), pi / 4), ((11, 11), pi / 4), ((10, 11), pi / 2)]"
    using quarter_turns by (rule sort_key_tied)
  have t: "find_tl_idx [((9, 9), pi / 4 - pi), ((12, 12), pi / 4), ((11, 11), pi / 4),
                        ((10, 11), pi / 2)] = 0"
    by (simp add: find_tl_idx_def tl_step_def closer_def norm2_def)
  show ?thesis
    unfolding sortCornerPoints_def Let_def c a s t by simp
qed

text \<open>
  C7 as stated fails on four distinct points whose angles from their centroid
  (10.5, 10.75) are pairwise distinct: the code measures the angles from the truncated
  centroid (10, 10), where (11, 11) and (12, 12) have the same angle, and the output
  follows the order of the input.
\<close>

theorem sortCornerPoints_permutation_invariant_counterexample:
  "length skew_corners = 4 \<and> distinct skew_corners
   \<and> mset skew_corners_swapped = mset skew_corners
   \<and> centroid_exact skew_corners = (21 / 2, 43 / 4)
   \<and> distinct (map (angle_exact (centroid_exact skew_corners)) skew_corners)
   \<and> sortCornerPoints skew_corners = [(9, 9), (11, 11), (12, 12), (10, 11)]
   \<and> sortCornerPoints skew_corners_swapped = [(9, 9), (12, 12), (11, 11), (10, 11)]
   \<and> sortCornerPoints skew_corners_swapped \<noteq> sortCornerPoints skew_corners"
proof -
  have 1: "length skew_corners = 4" "distinct skew_corners"
    "mset skew_corners_swapped = mset skew_corners"
    "centroid_exact skew_corners = (21 / 2, 43 / 4)"
    by (simp_all add: skew_corners_def skew_corners_swapped_def centroid_exact_def)
  have lo: "- (pi / 2) < arctan y" and hi: "arctan y < pi / 2" for y
    by (rule arctan_lbound, rule arctan_ubound)
  have "arctan (1 / 2) \<noteq> arctan (5 / 6)" by (simp add: arctan_eq_iff)
  moreover have "arctan (1 / 2) \<noteq> arctan (7 / 6) - pi"
    using lo [of "1 / 2"] hi [of "7 / 6"] by linarith
  moreover have "arctan (1 / 2) \<noteq> arctan (- (1 / 2)) + pi"
    using hi [of "1 / 2"] lo [of "- (1 / 2)"] by linarith
  moreover have "arctan (5 / 6) \<noteq> arctan (7 / 6) - pi"
    using lo [of "5 / 6"] hi [of "7 / 6"] by linarith
  moreover have "arctan (5 / 6) \<noteq> arctan (- (1 / 2)) + pi"
    using hi [of "5 / 6"] lo [of "- (1 / 2)"] by linarith
  moreover have "arctan (7 / 6) - pi \<noteq> arctan (- (1 / 2)) + pi"
    using hi [of "7 / 6"] lo [of "- (1 / 2)"] pi_gt_zero by linarith
  ultimately have 2: "distinct (map (angle_exact (centroid_exact skew_corners)) skew_corners)"
    unfolding skew_corners_angles_exact by simp
  have 3: "sortCornerPoints skew_corners = [(9, 9), (11, 11), (12, 12), (10, 11)]"
    unfolding skew_corners_def by (rule skew_corners_sorted)
  have 4: "sortCornerPoints skew_corners_swapped = [(9, 9), (12, 12), (11, 11), (10, 11)]"
    unfolding skew_corners_swapped_def by (rule skew_corners_swapped_sorted)
  have 5: "sortCornerPoints skew_corners_swapped \<noteq> sortCornerPoints skew_corners"
    unfolding 3 4 by simp
  from 1 2 3 4 5 show ?thesis by (intro conjI)
qed

section \<open>Properties of the detection pipeline\<close>

lemma cvRound_of_int: "cvRound (real_of_int n) = n"
  by (simp add: cvRound_def round_half_even_of_int)

lemma round_half_even_eq:
  assumes "\<bar>r - real_of_int n\<bar> < 1 / 2"
  shows "round_half_even r = n"
proof (cases "real_of_int n \<le> r")
  case True
  with assms have "\<lfloor>r\<rfloor> = n" by (intro floor_unique) linarith+
  with assms True show ?thesis by (simp add: round_half_even_def Let_def)
next
  case False
  with assms have f: "\<lfloor>r\<rfloor> = n - 1" by (intro floor_unique; simp; linarith)
  from assms False have "1 / 2 < r - real_of_int (n - 1)" by simp
  with f show ?thesis by (simp add: round_half_even_def Let_def)
qed

lemma two_powi_minus_53: "(2::real) powi (- 53) = 1 / 9007199254740992"
  by (simp add: power_int_minus)

lemma double_of_numeral [simp]:
  "(numeral n :: int) < 2 ^ 53 \<Longrightarrow> double_of (numeral n) = numeral n"
  using double_of_int [of "numeral n"] by simp

lemma scale_factor_small: "cols img \<le> 1200 \<Longrightarrow> scale_factor_of img = 1"
  by (simp add: scale_factor_of_def)

lemma scale_factor_large:
  "1200 < cols img \<Longrightarrow> scale_factor_of img = double_div 1200 (real_of_int (cols img))"
  by (simp add: scale_factor_of_def)

text \<open>
  The scale factor of a wide image is the quotient 1200 / width up to the rounding of
  the division; it lies strictly between 0 and 1.
\<close>

lemma scale_factor_bounds:
  assumes "1200 < cols img"
  shows "1200 / real_of_int (cols img) * (1 - 2 powi (- 53)) \<le> scale_factor_of img"
    and "scale_factor_of img \<le> 1200 / real_of_int (cols img) * (1 + 2 powi (- 53))"
    and "0 < scale_factor_of img"
    and "scale_factor_of img < 1"
proof -
  let ?x = "1200 / real_of_int (cols img)"
  from assms have x: "0 < ?x" by simp
  have sf: "scale_factor_of img = double_of ?x"
    using assms by (simp add: scale_factor_large double_div_def)
  show lo: "?x * (1 - 2 powi (- 53)) \<le> scale_factor_of img"
    unfolding sf using x by (rule double_of_bounds(1))
  show hi: "scale_factor_of img \<le> ?x * (1 + 2 powi (- 53))"
    unfolding sf using x by (rule double_of_bounds(2))
  show "0 < scale_factor_of img" unfolding sf using x by (rule double_of_pos)
  from assms have "1201 \<le> real_of_int (cols img)" by linarith
  hence "1200 * (1 + 2 powi (- 53)) < real_of_int (cols img)"
    unfolding two_powi_minus_53 by simp
  hence "?x * (1 + 2 powi (- 53)) < 1"
    using assms by (simp add: field_simps)
  with hi show "scale_factor_of img < 1" by linarith
qed

lemma scale_factor_large_neq_1: "1200 < cols img \<Longrightarrow> scale_factor_of img \<noteq> 1"
  using scale_factor_bounds(4) [of img] by simp

lemma scale_factor_rel_err:
  assumes "1200 < cols img"
  shows "\<bar>scale_factor_of img - 1200 / real_of_int (cols img)\<bar>
           \<le> 1200 / real_of_int (cols img) * 2 powi (- 53)"
  using double_of_rel_err [of "1200 / real_of_int (cols img)"] assms
  by (simp add: scale_factor_large double_div_def)

text \<open>The product of the width and the scale factor, as a double, is within 1 / 2 of 1200.\<close>

lemma scaled_width_bounds:
  assumes "1200 < cols img"
  shows "1200 * (1 - 2 powi (- 53)) \<le> real_of_int (cols img) * scale_factor_of img"
    and "real_of_int (cols img) * scale_factor_of img \<le> 1200 * (1 + 2 powi (- 53))"
proof -
  let ?c = "real_of_int (cols img)"
  from assms have c: "0 < ?c" by simp
  have e: "?c * (1200 / ?c * k) = 1200 * k" for k using c by simp
  from mult_left_mono [OF scale_factor_bounds(1) [OF assms], of ?c] c
  show "1200 * (1 - 2 powi (- 53)) \<le> ?c * scale_factor_of img" unfolding e by simp
  from mult_left_mono [OF scale_factor_bounds(2) [OF assms], of ?c] c
  show "?c * scale_factor_of img \<le> 1200 * (1 + 2 powi (- 53))" unfolding e by simp
qed

lemma working_width:
  assumes "1200 < cols img"
  shows "cvRound (double_mul (real_of_int (cols img)) (scale_factor_of img)) = 1200"
proof -
  define y where "y = real_of_int (cols img) * scale_factor_of img"
  note b = scaled_width_bounds [OF assms, unfolded two_powi_minus_53, folded y_def]
  from b(1) have y: "0 < y" by simp
  note d = double_of_bounds [OF y, unfolded two_powi_minus_53]
  have "double_of y - 1200 < 1 / 2" and "- (double_of y - 1200) < 1 / 2"
    using b d by argo+
  hence "\<bar>double_of y - real_of_int 1200\<bar> < 1 / 2"
    unfolding abs_less_iff by simp
  thus ?thesis
    unfolding cvRound_def double_mul_def y_def by (rule round_half_even_eq)
qed

lemma working_image_large:
  assumes "1200 < cols img" and "working_image_of cv img = Some w"
  shows "cols w = 1200"
    and "rows w = cvRound (double_mul (real_of_int (rows img)) (scale_factor_of img))"
    and "channels w = channels img"
    and "pixels w = resize cv img (mat_size w)"
proof -
  let ?h = "cvRound (double_mul (real_of_int (rows img)) (scale_factor_of img))"
  from assms have "resize_to cv img (scale_factor_of img) (scale_factor_of img) = Some w"
    by (simp add: working_image_of_def)
  then have w: "w = img\<lparr>cols := 1200, rows := ?h,
        pixels := resize cv img \<lparr>width = 1200, height = ?h\<rparr>\<rparr>"
    unfolding resize_to_def Let_def working_width [OF assms(1)] by (simp split: if_splits)
  show cw: "cols w = 1200" by (subst w) simp
  show rw: "rows w = ?h" by (subst w) simp
  show "channels w = channels img" by (subst w) simp
  have "pixels w = resize cv img \<lparr>width = 1200, height = ?h\<rparr>"
    by (subst w) simp
  then show "pixels w = resize cv img (mat_size w)"
    by (simp add: mat_size_def cw rw)
qed

text \<open>A wide image has a working image exactly when its scaled height rounds to 1 or more.\<close>

lemma working_image_exists:
  assumes "1200 < cols img"
  shows "(\<exists>w. working_image_of cv img = Some w)
           \<longleftrightarrow> 1 \<le> cvRound (double_mul (real_of_int (rows img)) (scale_factor_of img))"
  using assms
  by (simp add: working_image_of_def resize_to_def Let_def working_width [OF assms])

text \<open>
  The rounding of the machine shows in the results. On an image 3264 wide the scale
  factor is 827867578560753 / 2 ^ 51, the double next above 25 / 68, and the coordinates 75 and 150 are mapped
  back to 203 and 407 (the exact quotients are 204 and 408). The working image of a
  1632 x 1105 image is 813 high and that of an 8800 x 5863 image 799 high (the exact
  products are 812.5 and 799.5).
\<close>

lemma double_div_1200_3264: "double_div 1200 3264 = 827867578560753 / 2251799813685248"
  unfolding double_div_def
  using double_of_eval [of "- 2" "1200 / 3264"]
  by (simp add: round_half_even_def Let_def power_int_minus)

lemma scale_back_3264:
  "scale_back (double_div 1200 3264) [(75, 150)] = [(203, 407)]"
proof -
  let ?sf = "827867578560753 / 2251799813685248 :: real"
  have x: "double_div 75 ?sf = 7177611906121727 / 2 ^ 45"
    unfolding double_div_def
    using double_of_eval [of 7 "75 / ?sf"]
    by (simp add: round_half_even_def Let_def power_int_minus)
  have y: "double_div 150 ?sf = 7177611906121727 / 2 ^ 44"
    unfolding double_div_def
    using double_of_eval [of 8 "150 / ?sf"]
    by (simp add: round_half_even_def Let_def power_int_minus)
  show ?thesis
    unfolding double_div_1200_3264 scale_back_def
    by (simp add: x y trunc_int_def)
qed

lemma working_height_1632_1105:
  "cvRound (double_mul 1105 (double_div 1200 1632)) = 813"
proof -
  have sf: "double_div 1200 1632 = 827867578560753 / 2 ^ 50"
    unfolding double_div_def
    using double_of_eval [of "- 1" "1200 / 1632"]
    by (simp add: round_half_even_def Let_def power_int_minus)
  have h: "double_mul 1105 (827867578560753 / 2 ^ 50) = 7146825580544001 / 2 ^ 43"
    unfolding double_mul_def
    using double_of_eval [of 9 "1105 * (827867578560753 / 2 ^ 50)"]
    by (simp add: round_half_even_def Let_def power_int_minus)
  show ?thesis
    unfolding sf h cvRound_def by (simp add: round_half_even_def Let_def)
qed

lemma working_height_8800_5863:
  "cvRound (double_mul 5863 (double_div 1200 8800)) = 799"
proof -
  have sf: "double_div 1200 8800 = 1228254443828317 / 2 ^ 53"
    unfolding double_div_def
    using double_of_eval [of "- 3" "1200 / 8800"]
    by (simp add: round_half_even_def Let_def power_int_minus)
  have h: "double_mul 5863 (1228254443828317 / 2 ^ 53) = 7032476371255295 / 2 ^ 43"
    unfolding double_mul_def
    using double_of_eval [of 9 "5863 * (1228254443828317 / 2 ^ 53)"]
    by (simp add: round_half_even_def Let_def power_int_minus)
  show ?thesis
    unfolding sf h cvRound_def by (simp add: round_half_even_def Let_def)
qed

lemma preprocess_ok: "fst (preprocessImageForID1Document cv w) = True"
  unfolding preprocessImageForID1Document_def Let_def by simp

lemma to_gray_size: "cols (to_gray cv w) = cols w" "rows (to_gray cv w) = rows w"
  by (simp_all add: to_gray_def)

lemma preprocess_size:
  "cols (snd (preprocessImageForID1Document cv w)) = cols w"
  "rows (snd (preprocessImageForID1Document cv w)) = rows w"
  unfolding preprocessImageForID1Document_def Let_def by (simp_all add: to_gray_size)

lemma detect_on_independent:
  "target_aspect_ratio d' = target_aspect_ratio d \<Longrightarrow>
   detect_on cv d' img b w = detect_on cv d img b w"
  unfolding detect_on_def
  by (simp only: adapt_independent [of d' d "mat_size w"])

lemma detect_on_state:
  "snd (snd (detect_on cv d img b w)) = adaptParametersForImageSize d (mat_size w)"
  by (simp add: detect_on_def Let_def split: prod.splits)

lemma working_image_nonempty:
  assumes "\<not> empty_mat img" and "working_image_of cv img = Some w"
  shows "0 < cols w \<and> 0 < rows w"
proof (cases "1200 < cols img")
  case True
  with assms(2) show ?thesis
    by (auto simp: working_image_of_def resize_to_def Let_def split: if_splits)
next
  case False
  with assms show ?thesis
    by (simp add: working_image_of_def empty_mat_def)
qed

lemma best_loop_score:
  assumes "best_loop cv d sz cs 0 (0, - 1, bc0) = (bs, bi, bc)" and "bi \<noteq> - 1"
  shows "bs = calculateDocumentScore cv d bc sz"
  using best_loop_inv [where cv = cv and d = d and sz = sz and cs = cs and i = 0
      and bs = 0 and bi = "- 1" and bc = bc0] assms
  by (auto simp: candidate_score_def)

lemma findBest_selection:
  "findBestDocumentContour cv (adaptParametersForImageSize d (mat_size w))
     (snd (findDocumentContours cv (adaptParametersForImageSize d (mat_size w))
            (snd (preprocessImageForID1Document cv w))))
     (mat_size w) []
   = (fst (snd (selection cv d w)) \<noteq> - 1 \<and> 0.1 < fst (selection cv d w),
      snd (snd (selection cv d w)))"
  by (simp add: findBestDocumentContour_def selection_def Let_def case_prod_beta)

lemma selection_score:
  assumes "fst (snd (selection cv d w)) \<noteq> - 1"
  shows "fst (selection cv d w)
           = calculateDocumentScore cv (adaptParametersForImageSize d (mat_size w))
               (snd (snd (selection cv d w))) (mat_size w)"
proof -
  obtain bs bi bc where s: "selection cv d w = (bs, bi, bc)" by (cases "selection cv d w")
  with assms have "bi \<noteq> - 1" by simp
  moreover from s have "best_loop cv (adaptParametersForImageSize d (mat_size w)) (mat_size w)
      (snd (findDocumentContours cv (adaptParametersForImageSize d (mat_size w))
            (snd (preprocessImageForID1Document cv w)))) 0 (0, - 1, []) = (bs, bi, bc)"
    by (simp add: selection_def Let_def)
  ultimately have "bs = calculateDocumentScore cv (adaptParametersForImageSize d (mat_size w))
      bc (mat_size w)"
    by (rule best_loop_score [rotated])
  with s show ?thesis by simp
qed

lemma detect_on_success:
  assumes "detect_on cv d img b w = (True, b', d')"
  shows "d' = adaptParametersForImageSize d (mat_size w)"
    and "fst (snd (selection cv d w)) \<noteq> - 1"
    and "0.1 < fst (selection cv d w)"
    and "extractDocumentBounds cv d'
           (scale_back (scale_factor_of img) (snd (snd (selection cv d w)))) (mat_size img) b
         = (True, b')"
proof -
  let ?d1 = "adaptParametersForImageSize d (mat_size w)"
  let ?C = "findDocumentContours cv ?d1 (snd (preprocessImageForID1Document cv w))"
  let ?B = "findBestDocumentContour cv ?d1 (snd ?C) (mat_size w) []"
  let ?E = "extractDocumentBounds cv ?d1 (scale_back (scale_factor_of img) (snd ?B)) (mat_size img) b"
  have on: "detect_on cv d img b w =
      (if \<not> fst ?C then (False, b, ?d1)
       else if \<not> fst ?B then (False, b, ?d1)
       else (fst ?E, snd ?E, ?d1))"
    by (simp add: detect_on_def Let_def case_prod_beta preprocess_ok)
  from assms on have C: "fst ?C" and B: "fst ?B" and E: "fst ?E" "snd ?E = b'" and d: "d' = ?d1"
    by (auto split: if_splits)
  show "d' = ?d1" by fact
  from B show "fst (snd (selection cv d w)) \<noteq> - 1" and "0.1 < fst (selection cv d w)"
    unfolding findBest_selection by simp_all
  from E have "?E = (True, b')" by (cases ?E) simp
  then show "extractDocumentBounds cv d'
           (scale_back (scale_factor_of img) (snd (snd (selection cv d w)))) (mat_size img) b
         = (True, b')"
    unfolding d findBest_selection by simp
qed

text \<open>
  C4 (as amended): the decision to downscale reads the width only. An image at most 1200
  wide is processed as it is, with factor 1 and an unchanged contour, whatever its
  height. For an image whose width exceeds 1200 the scale factor is the \<^verbatim>\<open>double\<close>
  quotient 1200 / width (the quotient up to a relative rounding error of \<open>2 ^ - 53\<close>),
  and the points of the winning contour are mapped back by dividing each coordinate by
  that factor in \<^verbatim>\<open>double\<close> and truncating. If moreover the product of the height and
  the factor rounds to at least 1, the working image exists, is 1200 wide and that
  rounded product high, holds the pixels that \<^verbatim>\<open>cv::resize\<close> gives, and the call
  returns what the remaining stages compute on it. The bounds of a successful call are
  extracted from the winning contour so mapped back, against the size of the input
  image.
\<close>

theorem detectDocument_scaling:
  assumes "\<not> empty_mat img"
  shows "(cols img \<le> 1200 \<longrightarrow>
            scale_factor_of img = 1
          \<and> working_image_of cv img = Some img
          \<and> scale_back (scale_factor_of img) c = c
          \<and> detectDocument cv d img b = Returned (detect_on cv d img b img))
       \<and> (1200 < cols img \<longrightarrow>
            scale_factor_of img = double_div 1200 (real_of_int (cols img))
          \<and> \<bar>scale_factor_of img - 1200 / real_of_int (cols img)\<bar>
               \<le> 1200 / real_of_int (cols img) * 2 powi (- 53)
          \<and> scale_back (scale_factor_of img) c
              = map (\<lambda>p. (trunc_int (double_div (real_of_int (fst p)) (scale_factor_of img)),
                           trunc_int (double_div (real_of_int (snd p)) (scale_factor_of img)))) c)
       \<and> (1200 < cols img
            \<and> 1 \<le> cvRound (double_mul (real_of_int (rows img)) (scale_factor_of img)) \<longrightarrow>
            (\<exists>w. working_image_of cv img = Some w
               \<and> cols w = 1200
               \<and> rows w = cvRound (double_mul (real_of_int (rows img)) (scale_factor_of img))
               \<and> channels w = channels img
               \<and> pixels w = resize cv img (mat_size w)
               \<and> detectDocument cv d img b = Returned (detect_on cv d img b w)))
       \<and> (\<forall>b' d'. detectDocument cv d img b = Returned (True, b', d') \<longrightarrow>
            (\<exists>w. working_image_of cv img = Some w
               \<and> extractDocumentBounds cv d'
                     (scale_back (scale_factor_of img) (snd (snd (selection cv d w))))
                     (mat_size img) b
                   = (True, b')))"
proof (intro conjI impI allI)
  assume s: "cols img \<le> 1200"
  then show "scale_factor_of img = 1" by (rule scale_factor_small)
  from s show wi: "working_image_of cv img = Some img" by (simp add: working_image_of_def)
  from s show "scale_back (scale_factor_of img) c = c"
    by (simp add: scale_back_def scale_factor_small)
  from assms wi show "detectDocument cv d img b = Returned (detect_on cv d img b img)"
    by (simp add: detectDocument_def)
next
  assume l: "1200 < cols img"
  then show "scale_factor_of img = double_div 1200 (real_of_int (cols img))"
    by (rule scale_factor_large)
  from l show "\<bar>scale_factor_of img - 1200 / real_of_int (cols img)\<bar>
               \<le> 1200 / real_of_int (cols img) * 2 powi (- 53)"
    by (rule scale_factor_rel_err)
  from scale_factor_large_neq_1 [OF l]
  show "scale_back (scale_factor_of img) c
              = map (\<lambda>p. (trunc_int (double_div (real_of_int (fst p)) (scale_factor_of img)),
                           trunc_int (double_div (real_of_int (snd p)) (scale_factor_of img)))) c"
    by (simp add: scale_back_def)
next
  assume "1200 < cols img
            \<and> 1 \<le> cvRound (double_mul (real_of_int (rows img)) (scale_factor_of img))"
  then have l: "1200 < cols img"
    and h: "1 \<le> cvRound (double_mul (real_of_int (rows img)) (scale_factor_of img))"
    by simp_all
  from h working_image_exists [OF l, of cv]
  obtain w where w: "working_image_of cv img = Some w" by blast
  from assms w have "detectDocument cv d img b = Returned (detect_on cv d img b w)"
    by (simp add: detectDocument_def)
  with w working_image_large [OF l w]
  show "\<exists>w. working_image_of cv img = Some w
               \<and> cols w = 1200
               \<and> rows w = cvRound (double_mul (real_of_int (rows img)) (scale_factor_of img))
               \<and> channels w = channels img
               \<and> pixels w = resize cv img (mat_size w)
               \<and> detectDocument cv d img b = Returned (detect_on cv d img b w)"
    by blast
next
  fix b' d'
  assume "detectDocument cv d img b = Returned (True, b', d')"
  with assms obtain w where w: "working_image_of cv img = Some w"
    and on: "detect_on cv d img b w = (True, b', d')"
    by (auto simp: detectDocument_def split: option.splits)
  from w detect_on_success(4) [OF on]
  show "\<exists>w. working_image_of cv img = Some w
               \<and> extractDocumentBounds cv d'
                     (scale_back (scale_factor_of img) (snd (snd (selection cv d w))))
                     (mat_size img) b
                   = (True, b')"
    by blast
qed

lemma photo_2400_scale_factor: "scale_factor_of photo_2400 = 1 / 2"
  using double_of_half by (simp add: scale_factor_of_def double_div_def photo_2400_def)

lemma photo_2400_working_image:
  "working_image_of ref_cv photo_2400 = Some photo_2400_working"
  unfolding working_image_of_def resize_to_def photo_2400_scale_factor
  by (simp add: photo_2400_def photo_2400_working_def cvRound_def double_mul_def
      round_half_even_of_int [of 1200, simplified] round_half_even_of_int [of 800, simplified]
      ref_cv_def ref_resize_def id1_frame_def)

lemma photo_2400_scale_back:
  "scale_back (scale_factor_of photo_2400) id1_frame
     = [(800, 548), (1600, 548), (1600, 1052), (800, 1052)]"
  unfolding photo_2400_scale_factor
  by (simp add: scale_back_def double_div_def id1_frame_def trunc_int_def)

theorem detectDocument_scaling_witness:
  "\<not> empty_mat photo_2400
   \<and> 1200 < cols photo_2400
   \<and> scale_factor_of photo_2400 = 1 / 2
   \<and> cvRound (double_mul (real_of_int (rows photo_2400)) (scale_factor_of photo_2400)) = 800
   \<and> working_image_of ref_cv photo_2400 = Some photo_2400_working
   \<and> cols photo_2400_working = 1200 \<and> rows photo_2400_working = 800
   \<and> scale_back (scale_factor_of photo_2400) id1_frame
        = [(800, 548), (1600, 548), (1600, 1052), (800, 1052)]
   \<and> detectDocument ref_cv ISO_ID1_DocumentDetector_init photo_2400 DocumentBounds_init
        = Returned (detect_on ref_cv ISO_ID1_DocumentDetector_init photo_2400 DocumentBounds_init
                      photo_2400_working)"
proof -
  have ne: "\<not> empty_mat photo_2400" by (simp add: empty_mat_def photo_2400_def)
  have l: "1200 < cols photo_2400" by (simp add: photo_2400_def)
  have h: "cvRound (double_mul (real_of_int (rows photo_2400)) (scale_factor_of photo_2400)) = 800"
    unfolding photo_2400_scale_factor
    by (simp add: photo_2400_def cvRound_def double_mul_def
        round_half_even_of_int [of 800, simplified])
  from detectDocument_scaling [OF ne, where cv = ref_cv and c = id1_frame
      and d = ISO_ID1_DocumentDetector_init and b = DocumentBounds_init] l h
  obtain w where "working_image_of ref_cv photo_2400 = Some w"
    and "cols w = 1200"
    and "rows w = cvRound (double_mul (real_of_int (rows photo_2400)) (scale_factor_of photo_2400))"
    and "detectDocument ref_cv ISO_ID1_DocumentDetector_init photo_2400 DocumentBounds_init
        = Returned (detect_on ref_cv ISO_ID1_DocumentDetector_init photo_2400 DocumentBounds_init w)"
    by auto
  with photo_2400_working_image h
  have w: "cols photo_2400_working = 1200" "rows photo_2400_working = 800"
    and r: "detectDocument ref_cv ISO_ID1_DocumentDetector_init photo_2400 DocumentBounds_init
        = Returned (detect_on ref_cv ISO_ID1_DocumentDetector_init photo_2400 DocumentBounds_init
                      photo_2400_working)"
    by simp_all
  from ne l photo_2400_scale_factor h photo_2400_working_image w photo_2400_scale_back r
  show ?thesis by (intro conjI)
qed

text \<open>
  C4 as stated fails on a 1000 x 3000 image: its larger dimension exceeds 1200 and it is
  not downscaled.
\<close>

theorem detectDocument_scaling_counterexample:
  "\<not> empty_mat tall_photo
   \<and> 1200 < max (cols tall_photo) (rows tall_photo)
   \<and> scale_factor_of tall_photo = 1
   \<and> working_image_of ref_cv tall_photo = Some tall_photo
   \<and> max (cols tall_photo) (rows tall_photo) = 3000
   \<and> detectDocument ref_cv ISO_ID1_DocumentDetector_init tall_photo DocumentBounds_init
       = Returned (detect_on ref_cv ISO_ID1_DocumentDetector_init tall_photo DocumentBounds_init
                     tall_photo)"
  by (simp add: empty_mat_def tall_photo_def scale_factor_of_def working_image_of_def
      detectDocument_def)

text \<open>
  What a detection call of the ID-1 detector takes from the detector state. On a
  non-empty image the outcome of the call (raised or returned, value, bounds and detector
  state) depends on the state before the call only through the target aspect ratio;
  a call that returns has overwritten the Canny thresholds, the area ratios, the epsilon
  factor and the aspect tolerance with the values of the table for the working size,
  and kept the target aspect ratio.
\<close>

theorem detectDocument_adaptive_overrides:
  assumes "\<not> empty_mat img" and "target_aspect_ratio d' = target_aspect_ratio d"
  shows "detectDocument cv d' img b = detectDocument cv d img b
       \<and> (\<forall>ok b' d1. detectDocument cv d img b = Returned (ok, b', d1) \<longrightarrow>
            target_aspect_ratio d1 = target_aspect_ratio d
          \<and> (\<exists>w. working_image_of cv img = Some w
                 \<and> d1 = adaptParametersForImageSize d (mat_size w)
                 \<and> bundle_of d1 = selector_bundle (cols w) (rows w)))"
proof (intro conjI allI impI)
  show "detectDocument cv d' img b = detectDocument cv d img b"
    using assms(1)
    by (simp add: detectDocument_def detect_on_independent [OF assms(2)] split: option.splits)
next
  fix ok b' d1
  assume r: "detectDocument cv d img b = Returned (ok, b', d1)"
  with assms(1) obtain w where w: "working_image_of cv img = Some w"
    and on: "detect_on cv d img b w = (ok, b', d1)"
    by (auto simp: detectDocument_def split: option.splits)
  from on detect_on_state [of cv d img b w]
  have d1: "d1 = adaptParametersForImageSize d (mat_size w)" by simp
  then show "target_aspect_ratio d1 = target_aspect_ratio d"
    by (simp add: adapt_target_unchanged)
  from working_image_nonempty [OF assms(1) w] have pos: "0 < cols w" "0 < rows w" by simp_all
  have "bundle_of (adaptParametersForImageSize d \<lparr>width = cols w, height = rows w\<rparr>)
          = selector_bundle (cols w) (rows w)"
    using pos
    by (simp add: adaptParametersForImageSize_def selector_bundle_def selector_row_def
        bundle_of_def wide_image_def Let_def)
  with w d1 show "\<exists>w. working_image_of cv img = Some w
                 \<and> d1 = adaptParametersForImageSize d (mat_size w)
                 \<and> bundle_of d1 = selector_bundle (cols w) (rows w)"
    by (auto simp: mat_size_def)
qed

lemma extract_four:
  assumes "length contour = 4"
  shows "fst (extractDocumentBounds cv d contour sz b)"
    and "confidence (snd (extractDocumentBounds cv d contour sz b))
           = calculateDocumentScore cv d contour sz"
  using assms by (simp_all add: extractDocumentBounds_def Let_def)

lemma extract_confidence:
  assumes "extractDocumentBounds cv d contour sz b = (True, b')"
  shows "confidence b' = calculateDocumentScore cv d contour sz"
  using assms by (auto simp: extractDocumentBounds_def Let_def split: if_splits)

lemma preprocess_ref:
  "preprocessImageForID1Document ref_cv w = (True, to_gray ref_cv w)"
  unfolding preprocessImageForID1Document_def Let_def by (simp add: ref_cv_def)

lemma to_gray_ref_3:
  "channels w = 3 \<Longrightarrow> to_gray ref_cv w = w\<lparr>channels := 1\<rparr>"
  by (simp add: to_gray_def ref_cv_def)

lemma adapt_1200_800:
  "target_aspect_ratio d = 1.586 \<Longrightarrow>
   adaptParametersForImageSize d \<lparr>width = 1200, height = 800\<rparr> = working_detector"
  unfolding working_detector_def
  by (rule adapt_independent) (simp add: ISO_ID1_DocumentDetector_init_def)

lemma contours_photo_1200:
  "findDocumentContours ref_cv working_detector (photo_1200\<lparr>channels := 1\<rparr>)
     = (True, [id1_frame])"
  by (simp add: findDocumentContours_def reject_contour_def photo_1200_def ref_eval
      working_detector_def speck_def id1_frame_def)

lemma best_id1_frame:
  "findBestDocumentContour ref_cv working_detector [id1_frame] \<lparr>width = 1200, height = 800\<rparr> []
     = (True, id1_frame)"
  by (simp add: findBestDocumentContour_def ref_scores Let_def)

lemma detect_photo_1200:
  assumes "target_aspect_ratio d = 1.586"
  shows "detect_on ref_cv d photo_1200 b photo_1200
     = (True,
        snd (extractDocumentBounds ref_cv working_detector id1_frame \<lparr>width = 1200, height = 800\<rparr> b),
        working_detector)"
proof -
  have sz: "mat_size photo_1200 = \<lparr>width = 1200, height = 800\<rparr>"
    by (simp add: mat_size_def photo_1200_def)
  have g: "to_gray ref_cv photo_1200 = photo_1200\<lparr>channels := 1\<rparr>"
    by (rule to_gray_ref_3) (simp add: photo_1200_def)
  have sf: "scale_factor_of photo_1200 = 1"
    by (simp add: scale_factor_of_def photo_1200_def)
  have e: "fst (extractDocumentBounds ref_cv working_detector id1_frame \<lparr>width = 1200, height = 800\<rparr> b)"
    by (rule extract_four) (simp add: id1_frame_def)
  show ?thesis
    using e
    by (simp add: detect_on_def sz adapt_1200_800 [OF assms] preprocess_ref g
        contours_photo_1200 best_id1_frame sf scale_back_def case_prod_beta)
qed

lemma init_target: "target_aspect_ratio ISO_ID1_DocumentDetector_init = 1.586"
  by (simp add: ISO_ID1_DocumentDetector_init_def)

lemma configured_target: "target_aspect_ratio configured_detector = 1.586"
  by (simp add: configured_detector_def setCannyThresholds_def setAreaRatios_def
      ISO_ID1_DocumentDetector_init_def)

lemma photo_1200_nonempty: "\<not> empty_mat photo_1200"
  by (simp add: empty_mat_def photo_1200_def)

lemma photo_1200_working: "working_image_of ref_cv photo_1200 = Some photo_1200"
  by (simp add: working_image_of_def photo_1200_def)

theorem detectDocument_adaptive_overrides_witness:
  "\<not> empty_mat photo_1200
   \<and> target_aspect_ratio configured_detector = target_aspect_ratio ISO_ID1_DocumentDetector_init
   \<and> detectDocument ref_cv configured_detector photo_1200 DocumentBounds_init
       = detectDocument ref_cv ISO_ID1_DocumentDetector_init photo_1200 DocumentBounds_init"
proof -
  have t: "target_aspect_ratio configured_detector
             = target_aspect_ratio ISO_ID1_DocumentDetector_init"
    by (simp add: configured_target ISO_ID1_DocumentDetector_init_def)
  from detectDocument_adaptive_overrides [OF photo_1200_nonempty t, of ref_cv DocumentBounds_init]
  have "detectDocument ref_cv configured_detector photo_1200 DocumentBounds_init
       = detectDocument ref_cv ISO_ID1_DocumentDetector_init photo_1200 DocumentBounds_init"
    by blast
  with photo_1200_nonempty t show ?thesis by simp
qed

text \<open>
  C5: explicit configuration of the ID-1 detector does not reach its detection. With the
  Canny thresholds 100 / 200 and the area ratios 0.5 / 0.9 set through
  \<^verbatim>\<open>setCannyThresholds\<close> and \<^verbatim>\<open>setAreaRatios\<close>, a detection call on a 1200 x 800
  image returns true for a contour that covers less than half of the frame, and leaves
  the thresholds 20 / 60 and the ratios 0.005 / 0.85 in the detector. The contour filter
  run with the configured ratios keeps no contour of that image: had the configuration
  been used, the call would have returned false. The outcome is that of the detector
  that was never configured.
\<close>

theorem detectDocument_ignores_configuration:
  "canny_threshold1 configured_detector = 100
   \<and> canny_threshold2 configured_detector = 200
   \<and> min_contour_area_ratio configured_detector = 0.5
   \<and> max_contour_area_ratio configured_detector = 0.9
   \<and> detectDocument ref_cv configured_detector photo_1200 DocumentBounds_init
       = Returned (True,
           snd (extractDocumentBounds ref_cv working_detector id1_frame
                  \<lparr>width = 1200, height = 800\<rparr> DocumentBounds_init),
           working_detector)
   \<and> canny_threshold1 working_detector = 20
   \<and> canny_threshold2 working_detector = 60
   \<and> min_contour_area_ratio working_detector = 0.005
   \<and> max_contour_area_ratio working_detector = 0.85
   \<and> contourArea ref_cv id1_frame < 0.5 * real_of_int (cols photo_1200 * rows photo_1200)
   \<and> findDocumentContours ref_cv configured_detector
         (snd (preprocessImageForID1Document ref_cv photo_1200)) = (False, [])
   \<and> detectDocument ref_cv configured_detector photo_1200 DocumentBounds_init
       = detectDocument ref_cv ISO_ID1_DocumentDetector_init photo_1200 DocumentBounds_init"
proof -
  have r: "detectDocument ref_cv d photo_1200 DocumentBounds_init
       = Returned (True,
           snd (extractDocumentBounds ref_cv working_detector id1_frame
                  \<lparr>width = 1200, height = 800\<rparr> DocumentBounds_init),
           working_detector)"
    if "target_aspect_ratio d = 1.586" for d
    by (simp add: detectDocument_def photo_1200_nonempty photo_1200_working
        detect_photo_1200 [OF that])
  have a: "contourArea ref_cv id1_frame < 0.5 * real_of_int (cols photo_1200 * rows photo_1200)"
    by (simp add: ref_cv_simps ref_contourArea_def id1_frame_def photo_1200_def)
  have g: "to_gray ref_cv photo_1200 = photo_1200\<lparr>channels := 1\<rparr>"
    by (rule to_gray_ref_3) (simp add: photo_1200_def)
  have f: "findDocumentContours ref_cv configured_detector
         (snd (preprocessImageForID1Document ref_cv photo_1200)) = (False, [])"
    unfolding preprocess_ref g snd_conv
    by (simp add: findDocumentContours_def reject_contour_def photo_1200_def ref_eval
        configured_detector_def setCannyThresholds_def setAreaRatios_def speck_def id1_frame_def)
  have c: "canny_threshold1 configured_detector = 100" "canny_threshold2 configured_detector = 200"
    "min_contour_area_ratio configured_detector = 0.5"
    "max_contour_area_ratio configured_detector = 0.9"
    by (simp_all add: configured_detector_def setCannyThresholds_def setAreaRatios_def
        ISO_ID1_DocumentDetector_init_def)
  have w: "canny_threshold1 working_detector = 20" "canny_threshold2 working_detector = 60"
    "min_contour_area_ratio working_detector = 0.005"
    "max_contour_area_ratio working_detector = 0.85"
    by (simp_all add: working_detector_def adaptParametersForImageSize_def wide_image_def)
  have e: "detectDocument ref_cv configured_detector photo_1200 DocumentBounds_init
       = detectDocument ref_cv ISO_ID1_DocumentDetector_init photo_1200 DocumentBounds_init"
    unfolding r [OF configured_target] r [OF init_target] ..
  from c r [OF configured_target] w a f e show ?thesis by (intro conjI)
qed

text \<open>
  C6 (as amended): on every successful detection the confidence of the bounds is the
  score that \<^verbatim>\<open>calculateDocumentScore\<close> gives, with the parameters of the call, to the
  winning contour mapped back to the input image, against the size of the input image.
  When the image is at most 1200 wide (no downscaling) this is the best score of the
  selection loop, the value compared with 0.1. When it is wider, the contour scored has
  the coordinates of the winning contour divided in \<^verbatim>\<open>double\<close> by the \<^verbatim>\<open>double\<close>
  quotient 1200 / width and truncated.
\<close>

theorem detectDocument_confidence:
  assumes "detectDocument cv d img b = Returned (True, b', d')"
  shows "\<exists>w. working_image_of cv img = Some w
            \<and> 0.1 < fst (selection cv d w)
            \<and> confidence b'
                = calculateDocumentScore cv d'
                    (scale_back (scale_factor_of img) (snd (snd (selection cv d w))))
                    (mat_size img)
            \<and> (cols img \<le> 1200 \<longrightarrow> confidence b' = fst (selection cv d w))
            \<and> (1200 < cols img \<longrightarrow>
                 confidence b'
                   = calculateDocumentScore cv d'
                       (map (\<lambda>p. (trunc_int (double_div (real_of_int (fst p))
                                               (double_div 1200 (real_of_int (cols img)))),
                                   trunc_int (double_div (real_of_int (snd p))
                                               (double_div 1200 (real_of_int (cols img))))))
                          (snd (snd (selection cv d w))))
                       (mat_size img))"
proof -
  from assms have ne: "\<not> empty_mat img"
    by (auto simp: detectDocument_def)
  with assms obtain w where w: "working_image_of cv img = Some w"
    and on: "detect_on cv d img b w = (True, b', d')"
    by (auto simp: detectDocument_def split: option.splits)
  note s = detect_on_success [OF on]
  have conf: "confidence b'
                = calculateDocumentScore cv d'
                    (scale_back (scale_factor_of img) (snd (snd (selection cv d w))))
                    (mat_size img)"
    using s(4) by (rule extract_confidence)
  have "confidence b' = fst (selection cv d w)" if small: "cols img \<le> 1200"
  proof -
    from small w have wi: "w = img" by (simp add: working_image_of_def)
    from small have "scale_back (scale_factor_of img) (snd (snd (selection cv d w)))
        = snd (snd (selection cv d w))"
      by (simp add: scale_back_def scale_factor_small)
    with conf selection_score [OF s(2)] s(1) wi show ?thesis by simp
  qed
  moreover have "confidence b'
                   = calculateDocumentScore cv d'
                       (map (\<lambda>p. (trunc_int (double_div (real_of_int (fst p))
                                               (double_div 1200 (real_of_int (cols img)))),
                                   trunc_int (double_div (real_of_int (snd p))
                                               (double_div 1200 (real_of_int (cols img))))))
                          (snd (snd (selection cv d w))))
                       (mat_size img)"
    if large: "1200 < cols img"
    using conf scale_factor_large_neq_1 [OF large]
    unfolding scale_back_def scale_factor_large [OF large] by simp
  ultimately show ?thesis using w s(3) conf by blast
qed

lemma score_card_2400:
  "calculateDocumentScore ref_cv working_detector card_2400 \<lparr>width = 2400, height = 1600\<rparr>
     = 80085 / 80093"
  by (simp add: calculateDocumentScore_def ref_eval card_2400_def working_detector_def)

lemma detect_photo_2400:
  assumes "target_aspect_ratio d = 1.586"
  shows "detect_on ref_cv d photo_2400 b photo_2400_working
     = (True,
        snd (extractDocumentBounds ref_cv working_detector card_2400 \<lparr>width = 2400, height = 1600\<rparr> b),
        working_detector)"
proof -
  have sz: "mat_size photo_2400_working = \<lparr>width = 1200, height = 800\<rparr>"
    "mat_size photo_2400 = \<lparr>width = 2400, height = 1600\<rparr>"
    by (simp_all add: mat_size_def photo_2400_working_def photo_2400_def)
  have g: "to_gray ref_cv photo_2400_working = photo_2400_working\<lparr>channels := 1\<rparr>"
    by (rule to_gray_ref_3) (simp add: photo_2400_working_def)
  have c: "findDocumentContours ref_cv working_detector (photo_2400_working\<lparr>channels := 1\<rparr>)
     = (True, [id1_frame])"
    by (simp add: findDocumentContours_def reject_contour_def photo_2400_working_def ref_eval
        working_detector_def id1_frame_def)
  have sb: "scale_back (scale_factor_of photo_2400) id1_frame = card_2400"
    by (simp add: photo_2400_scale_back card_2400_def)
  have e: "fst (extractDocumentBounds ref_cv working_detector card_2400 \<lparr>width = 2400, height = 1600\<rparr> b)"
    by (rule extract_four) (simp add: card_2400_def)
  show ?thesis
    using e
    by (simp add: detect_on_def sz adapt_1200_800 [OF assms] preprocess_ref g
        c best_id1_frame sb case_prod_beta)
qed

lemma selection_photo_1200:
  "selection ref_cv ISO_ID1_DocumentDetector_init photo_1200 = (1403371 / 1404403, 0, id1_frame)"
proof -
  have sz: "mat_size photo_1200 = \<lparr>width = 1200, height = 800\<rparr>"
    by (simp add: mat_size_def photo_1200_def)
  have g: "to_gray ref_cv photo_1200 = photo_1200\<lparr>channels := 1\<rparr>"
    by (rule to_gray_ref_3) (simp add: photo_1200_def)
  show ?thesis
    by (simp add: selection_def sz adapt_1200_800 [OF init_target] preprocess_ref g
        contours_photo_1200 ref_scores)
qed

lemma selection_photo_2400:
  "selection ref_cv ISO_ID1_DocumentDetector_init photo_2400_working
     = (1403371 / 1404403, 0, id1_frame)"
proof -
  have sz: "mat_size photo_2400_working = \<lparr>width = 1200, height = 800\<rparr>"
    by (simp add: mat_size_def photo_2400_working_def)
  have g: "to_gray ref_cv photo_2400_working = photo_2400_working\<lparr>channels := 1\<rparr>"
    by (rule to_gray_ref_3) (simp add: photo_2400_working_def)
  have c: "findDocumentContours ref_cv working_detector (photo_2400_working\<lparr>channels := 1\<rparr>)
     = (True, [id1_frame])"
    by (simp add: findDocumentContours_def reject_contour_def photo_2400_working_def ref_eval
        working_detector_def id1_frame_def)
  show ?thesis
    by (simp add: selection_def sz adapt_1200_800 [OF init_target] preprocess_ref g c ref_scores)
qed

theorem detectDocument_confidence_witness:
  "detectDocument ref_cv ISO_ID1_DocumentDetector_init photo_1200 DocumentBounds_init
     = Returned (True,
         snd (extractDocumentBounds ref_cv working_detector id1_frame
                \<lparr>width = 1200, height = 800\<rparr> DocumentBounds_init),
         working_detector)
   \<and> confidence (snd (extractDocumentBounds ref_cv working_detector id1_frame
                        \<lparr>width = 1200, height = 800\<rparr> DocumentBounds_init))
       = fst (selection ref_cv ISO_ID1_DocumentDetector_init photo_1200)
   \<and> fst (selection ref_cv ISO_ID1_DocumentDetector_init photo_1200) = 1403371 / 1404403"
proof -
  have r: "detectDocument ref_cv ISO_ID1_DocumentDetector_init photo_1200 DocumentBounds_init
     = Returned (True,
         snd (extractDocumentBounds ref_cv working_detector id1_frame
                \<lparr>width = 1200, height = 800\<rparr> DocumentBounds_init),
         working_detector)"
    by (simp add: detectDocument_def photo_1200_nonempty photo_1200_working
        detect_photo_1200 [OF init_target])
  have small: "cols photo_1200 \<le> 1200" by (simp add: photo_1200_def)
  from detectDocument_confidence [OF r] photo_1200_working small
  have "confidence (snd (extractDocumentBounds ref_cv working_detector id1_frame
                        \<lparr>width = 1200, height = 800\<rparr> DocumentBounds_init))
       = fst (selection ref_cv ISO_ID1_DocumentDetector_init photo_1200)"
    by auto
  with r show ?thesis by (simp add: selection_photo_1200)
qed

text \<open>
  C6 as stated fails on a downscaled image: the selection loop ends with the score
  1403371 / 1404403 of the contour in the working image, the confidence returned is the
  score 80085 / 80093 of the contour mapped back to the 2400 x 1600 image.
\<close>

theorem detectDocument_confidence_counterexample:
  "detectDocument ref_cv ISO_ID1_DocumentDetector_init photo_2400 DocumentBounds_init
     = Returned (True,
         snd (extractDocumentBounds ref_cv working_detector card_2400
                \<lparr>width = 2400, height = 1600\<rparr> DocumentBounds_init),
         working_detector)
   \<and> confidence (snd (extractDocumentBounds ref_cv working_detector card_2400
                        \<lparr>width = 2400, height = 1600\<rparr> DocumentBounds_init))
       = 80085 / 80093
   \<and> working_image_of ref_cv photo_2400 = Some photo_2400_working
   \<and> fst (selection ref_cv ISO_ID1_DocumentDetector_init photo_2400_working)
       = 1403371 / 1404403
   \<and> confidence (snd (extractDocumentBounds ref_cv working_detector card_2400
                        \<lparr>width = 2400, height = 1600\<rparr> DocumentBounds_init))
       \<noteq> fst (selection ref_cv ISO_ID1_DocumentDetector_init photo_2400_working)"
proof -
  have ne: "\<not> empty_mat photo_2400" by (simp add: empty_mat_def photo_2400_def)
  have r: "detectDocument ref_cv ISO_ID1_DocumentDetector_init photo_2400 DocumentBounds_init
     = Returned (True,
         snd (extractDocumentBounds ref_cv working_detector card_2400
                \<lparr>width = 2400, height = 1600\<rparr> DocumentBounds_init),
         working_detector)"
    by (simp add: detectDocument_def ne photo_2400_working_image
        detect_photo_2400 [OF init_target])
  have c: "confidence (snd (extractDocumentBounds ref_cv working_detector card_2400
                        \<lparr>width = 2400, height = 1600\<rparr> DocumentBounds_init))
       = 80085 / 80093"
  proof -
    have "length card_2400 = 4" by (simp add: card_2400_def)
    from extract_four(2) [OF this, where cv = ref_cv] show ?thesis
      by (simp add: score_card_2400)
  qed
  from r c show ?thesis
    by (simp add: photo_2400_working_image selection_photo_2400)
qed

section \<open>Range of the bounds\<close>

lemma sortCornerPoints_length: "length (sortCornerPoints ps) = length ps"
  by (simp add: sortCornerPoints_def Let_def)

lemma sortCornerPoints_subset: "set (sortCornerPoints ps) \<subseteq> set ps"
proof (cases "length ps = 4")
  case False
  then show ?thesis by (simp add: sortCornerPoints_def)
next
  case True
  let ?pa = "sort_key snd (map (\<lambda>point. (point, angle_from (centroid4 ps) point)) ps)"
  have "fst (?pa ! (j mod 4)) \<in> set ps" for j
  proof -
    have "j mod 4 < length ?pa" using True by simp
    then have "?pa ! (j mod 4) \<in> set ?pa" by (rule nth_mem)
    then show ?thesis by auto
  qed
  then show ?thesis
    using True by (auto simp: sortCornerPoints_def Let_def)
qed

lemma fold_pick_mem:
  assumes "\<And>p q. pick p q = p \<or> pick p q = q"
  shows "fold pick xs x \<in> insert x (set xs)"
proof (induction xs arbitrary: x)
  case Nil
  then show ?case by simp
next
  case (Cons a xs)
  from assms [of a x] Cons.IH [of "pick a x"] show ?case by auto
qed

lemma min_element_by_mem: "ps \<noteq> [] \<Longrightarrow> min_element_by key ps \<in> set ps"
  unfolding min_element_by_def
  using fold_pick_mem [of "\<lambda>p smallest. if key p < key smallest then p else smallest" "tl ps" "hd ps"]
  by (cases ps) auto

lemma max_element_by_mem: "ps \<noteq> [] \<Longrightarrow> max_element_by key ps \<in> set ps"
  unfolding max_element_by_def
  using fold_pick_mem [of "\<lambda>p largest. if key largest < key p then p else largest" "tl ps" "hd ps"]
  by (cases ps) auto

lemma selectFourCorners_subset: "set (selectFourCorners ps) \<subseteq> set ps"
proof (cases "length ps \<le> 4")
  case True
  then show ?thesis by (simp add: selectFourCorners_def)
next
  case False
  then have ne: "ps \<noteq> []" by auto
  define four where "four = [min_element_by fst ps, max_element_by fst ps,
                min_element_by snd ps, max_element_by snd ps]"
  have four: "set four \<subseteq> set ps"
    using min_element_by_mem [OF ne] max_element_by_mem [OF ne] by (simp add: four_def)
  from False have c: "(length ps \<le> 4) = False" by simp
  have sel: "selectFourCorners ps =
      (if length (remdups_adj (sort four)) \<ge> 4 then take 4 (remdups_adj (sort four))
       else remdups_adj (sort four))"
    unfolding selectFourCorners_def Let_def c if_False four_def ..
  have "set (take 4 (remdups_adj (sort four))) \<subseteq> set (remdups_adj (sort four))"
    by (rule set_take_subset)
  then have "set (selectFourCorners ps) \<subseteq> set (remdups_adj (sort four))"
    unfolding sel by (simp del: remdups_adj_set set_sort)
  also have "\<dots> = set four" by simp
  finally show ?thesis using four by blast
qed

lemma findCornerPoints_subset:
  assumes "\<forall>c e. set (approxPolyDP cv c e) \<subseteq> set c"
    and "\<forall>c. set (convexHull cv c) \<subseteq> set c"
  shows "set (findCornerPoints cv contour) \<subseteq> set contour"
proof -
  let ?h = "convexHull cv contour"
  let ?a = "approxPolyDP cv ?h (0.02 * arcLength cv ?h)"
  have h: "set ?h \<subseteq> set contour" using assms(2) by blast
  have a: "set ?a \<subseteq> set contour" using assms(1) h by blast
  have s: "set (selectFourCorners ?a) \<subseteq> set contour"
    using selectFourCorners_subset [of ?a] a by blast
  from h a s show ?thesis
    by (simp add: findCornerPoints_def Let_def)
qed

lemma extract_corners:
  assumes ok: "extractDocumentBounds cv d contour sz b = (True, b')"
    and approx: "\<forall>c e. set (approxPolyDP cv c e) \<subseteq> set c"
    and hull: "\<forall>c. set (convexHull cv c) \<subseteq> set c"
  shows "\<exists>p1 p2 p3 p4. p1 \<in> set contour \<and> p2 \<in> set contour \<and> p3 \<in> set contour \<and> p4 \<in> set contour
      \<and> x1 b' = real_of_int (fst p1) / real_of_int (width sz)
      \<and> y1 b' = real_of_int (snd p1) / real_of_int (height sz)
      \<and> x2 b' = real_of_int (fst p2) / real_of_int (width sz)
      \<and> y2 b' = real_of_int (snd p2) / real_of_int (height sz)
      \<and> x3 b' = real_of_int (fst p3) / real_of_int (width sz)
      \<and> y3 b' = real_of_int (snd p3) / real_of_int (height sz)
      \<and> x4 b' = real_of_int (fst p4) / real_of_int (width sz)
      \<and> y4 b' = real_of_int (snd p4) / real_of_int (height sz)"
proof -
  let ?corners = "if length contour = 4 then contour else findCornerPoints cv contour"
  let ?s = "sortCornerPoints ?corners"
  from ok have len: "length ?corners = 4"
    by (auto simp: extractDocumentBounds_def Let_def split: if_splits)
  have sub: "set ?corners \<subseteq> set contour"
    using findCornerPoints_subset [OF approx hull, of contour] by simp
  have "length ?s = 4" using len by (simp add: sortCornerPoints_length)
  then have "?s ! i \<in> set ?s" if "i < 4" for i using that by simp
  then have mem: "?s ! i \<in> set contour" if "i < 4" for i
    using that sortCornerPoints_subset [of ?corners] sub by blast
  from ok len have b': "b' = b\<lparr>x1 := real_of_int (fst (?s ! 0)) / real_of_int (width sz),
                  y1 := real_of_int (snd (?s ! 0)) / real_of_int (height sz),
                  x2 := real_of_int (fst (?s ! 1)) / real_of_int (width sz),
                  y2 := real_of_int (snd (?s ! 1)) / real_of_int (height sz),
                  x3 := real_of_int (fst (?s ! 2)) / real_of_int (width sz),
                  y3 := real_of_int (snd (?s ! 2)) / real_of_int (height sz),
                  x4 := real_of_int (fst (?s ! 3)) / real_of_int (width sz),
                  y4 := real_of_int (snd (?s ! 3)) / real_of_int (height sz),
                  confidence := calculateDocumentScore cv d contour sz\<rparr>"
    by (auto simp: extractDocumentBounds_def Let_def split: if_splits)
  show ?thesis
    apply (rule exI [of _ "?s ! 0"], rule exI [of _ "?s ! 1"],
        rule exI [of _ "?s ! 2"], rule exI [of _ "?s ! 3"])
    using mem [of 0] mem [of 1] mem [of 2] mem [of 3]
    by (subst (1 2 3 4 5 6 7 8) b') simp
qed

lemma unit_range:
  assumes "0 \<le> x" and "x < W"
  shows "0 \<le> real_of_int x / real_of_int W \<and> real_of_int x / real_of_int W \<le> 1"
  using assms by simp

lemma cvRound_le: "real_of_int (cvRound r) \<le> r + 1 / 2"
  using round_half_even_near [of r] unfolding cvRound_def by linarith

text \<open>
  A coordinate mapped back lies below a bound \<open>L\<close> when it lies, with the rounding of
  the division, below \<open>L\<close> times the scale factor.
\<close>

lemma scale_back_coord:
  assumes sf: "0 < sf" and a: "0 \<le> a"
    and below: "real_of_int a * (1 + 2 powi (- 53)) < real_of_int L * sf"
  shows "0 \<le> trunc_int (double_div (real_of_int a) sf)"
    and "trunc_int (double_div (real_of_int a) sf) < L"
proof -
  let ?v = "double_div (real_of_int a) sf"
  have q0: "0 \<le> real_of_int a / sf" using sf a by simp
  then have v0: "0 \<le> ?v" unfolding double_div_def by (rule double_of_nonneg)
  have "?v \<le> real_of_int a / sf * (1 + 2 powi (- 53))"
  proof (cases "a = 0")
    case True
    then show ?thesis by (simp add: double_div_def double_of_def)
  next
    case False
    with a sf have "0 < real_of_int a / sf" by simp
    then show ?thesis unfolding double_div_def by (rule double_of_bounds(2))
  qed
  also have "\<dots> = real_of_int a * (1 + 2 powi (- 53)) / sf" by simp
  also have "\<dots> < real_of_int L" using below sf by (simp add: pos_divide_less_eq)
  finally have v1: "?v < real_of_int L" .
  from v0 show "0 \<le> trunc_int ?v" by (simp add: trunc_int_def)
  from v0 v1 show "trunc_int ?v < L" by (simp add: trunc_int_def floor_less_iff)
qed

lemma scale_back_inside:
  assumes ne: "\<not> empty_mat img"
    and w: "working_image_of cv img = Some w"
    and inside: "\<forall>p \<in> set c. 0 \<le> fst p \<and> fst p < cols w \<and> 0 \<le> snd p \<and> snd p < rows w"
    and q: "q \<in> set (scale_back (scale_factor_of img) c)"
    and int_rows: "rows img < 2 ^ 31"
  shows "0 \<le> fst q \<and> fst q < cols img \<and> 0 \<le> snd q \<and> snd q < rows img"
proof (cases "1200 < cols img")
  case False
  then have "w = img" using w by (simp add: working_image_of_def)
  moreover from False have "scale_back (scale_factor_of img) c = c"
    by (simp add: scale_back_def scale_factor_small)
  ultimately show ?thesis using inside q by simp
next
  case True
  define sf where "sf = scale_factor_of img"
  define y where "y = real_of_int (cols img) * sf"
  define z where "z = real_of_int (rows img) * sf"
  note sfb = scale_factor_bounds(3,4) [OF True, folded sf_def]
  note yb = scaled_width_bounds(1) [OF True, unfolded two_powi_minus_53, folded sf_def,
      folded y_def]
  from working_image_large [OF True w]
  have cw: "cols w = 1200" and rw: "rows w = cvRound (double_mul (real_of_int (rows img)) sf)"
    unfolding sf_def by simp_all
  from q scale_factor_large_neq_1 [OF True] obtain p where p: "p \<in> set c"
    and qp: "q = (trunc_int (double_div (real_of_int (fst p)) sf),
                  trunc_int (double_div (real_of_int (snd p)) sf))"
    by (auto simp: scale_back_def sf_def)
  from inside p have px: "0 \<le> fst p" "fst p < 1200" and py: "0 \<le> snd p" "snd p < rows w"
    using cw by auto
  from px(2) have "real_of_int (fst p) \<le> 1199" by linarith
  with yb have "real_of_int (fst p) * (1 + 1 / 9007199254740992) < y" by argo
  then have x: "real_of_int (fst p) * (1 + 2 powi (- 53)) < real_of_int (cols img) * sf"
    unfolding two_powi_minus_53 y_def .
  from ne have r: "0 < real_of_int (rows img)" by (simp add: empty_mat_def)
  with sfb have z0: "0 < z" unfolding z_def by simp
  have "z < real_of_int (rows img) * 1"
    unfolding z_def using sfb(2) r by (intro mult_strict_left_mono)
  moreover from int_rows have "real_of_int (rows img) < real_of_int (2 ^ 31)"
    by (simp only: of_int_less_iff)
  ultimately have z1: "z < 2147483648" by simp
  have "real_of_int (rows w) \<le> double_of z + 1 / 2"
    unfolding rw double_mul_def z_def by (rule cvRound_le)
  moreover note double_of_bounds(2) [OF z0, unfolded two_powi_minus_53]
  moreover from py(2) have "real_of_int (snd p) \<le> real_of_int (rows w) - 1" by linarith
  ultimately have "real_of_int (snd p) * (1 + 1 / 9007199254740992) < z"
    using z1 by argo
  then have y: "real_of_int (snd p) * (1 + 2 powi (- 53)) < real_of_int (rows img) * sf"
    unfolding two_powi_minus_53 z_def .
  from scale_back_coord [OF sfb(1) px(1) x] scale_back_coord [OF sfb(1) py(1) y]
  show ?thesis unfolding qp by simp
qed

lemma norm2_mono:
  assumes "\<bar>a\<bar> \<le> \<bar>a'\<bar>" and "\<bar>b\<bar> \<le> \<bar>b'\<bar>"
  shows "norm2 a b \<le> norm2 a' b'"
proof -
  have "a * a \<le> a' * a'" using assms(1) abs_le_square_iff [of a a'] by (simp add: power2_eq_square)
  moreover have "b * b \<le> b' * b'"
    using assms(2) abs_le_square_iff [of b b'] by (simp add: power2_eq_square)
  ultimately show ?thesis by (simp add: norm2_def)
qed

lemma centerednessScore_nonneg:
  assumes "0 < width sz" and "0 < height sz"
    and "0 \<le> fst c" and "fst c \<le> real_of_int (width sz)"
    and "0 \<le> snd c" and "snd c \<le> real_of_int (height sz)"
  shows "0 \<le> centerednessScore c sz"
proof -
  let ?W = "real_of_int (width sz) / 2" and ?H = "real_of_int (height sz) / 2"
  have "\<bar>fst c - ?W\<bar> \<le> \<bar>?W\<bar>" using assms(3,4) by linarith
  moreover have "\<bar>snd c - ?H\<bar> \<le> \<bar>?H\<bar>" using assms(5,6) by linarith
  ultimately have "norm2 (fst c - ?W) (snd c - ?H) \<le> norm2 ?W ?H"
    by (rule norm2_mono)
  moreover have "0 < norm2 ?W ?H"
    using assms(1,2) by (simp add: norm2_def add_pos_pos)
  ultimately have "norm2 (fst c - ?W) (snd c - ?H) / norm2 ?W ?H \<le> 1"
    by (simp add: divide_le_eq_1_pos)
  then show ?thesis by (simp add: centerednessScore_def)
qed

lemma areaScore_nonneg: "0 \<le> areaScore r"
  by (simp add: areaScore_def)

lemma aspectScore_nonneg: "0 \<le> aspectScore t tol r"
  by (simp add: aspectScore_def)

lemma shapeScore_nonneg: "0 \<le> shapeScore n"
  by (simp add: shapeScore_def)

lemma sub_scores_range:
  assumes "0 < t" and "0 < tol" and "0 \<le> c" and "c \<le> 1"
  shows "0 \<le> 0.25 * areaScore a + 0.40 * aspectScore t tol r + 0.15 * shapeScore n + 0.20 * c"
    and "0.25 * areaScore a + 0.40 * aspectScore t tol r + 0.15 * shapeScore n + 0.20 * c \<le> 1"
  using areaScore_nonneg [of a] areaScore_le_1 [of a] aspectScore_nonneg [of t tol r]
    aspectScore_le_1 [OF assms(1,2), of r] shapeScore_nonneg [of n] shapeScore_le_1 [of n]
    assms(3,4)
  by simp_all

lemma findDocumentContours_subset:
  "set (snd (findDocumentContours cv d e)) \<subseteq> set (findContours cv e)"
  by (auto simp: findDocumentContours_def Let_def)

lemma selection_best_inside:
  assumes sel: "fst (snd (selection cv d w)) \<noteq> - 1"
    and approx: "\<forall>c e. set (approxPolyDP cv c e) \<subseteq> set c"
  shows "\<exists>c \<in> set (findContours cv (snd (preprocessImageForID1Document cv w))).
           set (snd (snd (selection cv d w))) \<subseteq> set c"
proof -
  let ?d1 = "adaptParametersForImageSize d (mat_size w)"
  let ?pre = "snd (preprocessImageForID1Document cv w)"
  let ?cs = "snd (findDocumentContours cv ?d1 ?pre)"
  have s: "selection cv d w = best_loop cv ?d1 (mat_size w) ?cs 0 (0, - 1, [])"
    by (simp add: selection_def Let_def)
  from best_loop_inv [where cv = cv and d = ?d1 and sz = "mat_size w" and cs = ?cs and i = 0
      and bs = 0 and bi = "- 1" and bc = "[]"] sel
  obtain k where k: "k < length ?cs"
    and b: "snd (snd (selection cv d w)) = approx_of cv ?d1 (?cs ! k)"
    unfolding s by auto
  from k have "?cs ! k \<in> set ?cs" by (rule nth_mem)
  with findDocumentContours_subset [of cv ?d1 ?pre]
  have "?cs ! k \<in> set (findContours cv ?pre)" by blast
  moreover have "set (snd (snd (selection cv d w))) \<subseteq> set (?cs ! k)"
    unfolding b approx_of_def Let_def using approx by blast
  ultimately show ?thesis by blast
qed

lemma extract_length:
  "extractDocumentBounds cv d contour sz b = (True, b') \<Longrightarrow> 4 \<le> length contour"
  by (auto simp: extractDocumentBounds_def split: if_splits)

text \<open>
  Whenever a detection call returns true, the confidence and the eight coordinates lie
  in [0, 1]. The library enters through its contracts: the points of the contours found
  in an edge map lie inside it, polygon approximation and convex hull return points of
  their argument, and the centre of the enclosing circle of points of a box lies in that
  box. The target aspect ratio is positive (1.586 unless reconfigured), and the height of
  the image is an \<^verbatim>\<open>int\<close>.
\<close>

theorem detectDocument_in_range:
  assumes ret: "detectDocument cv d img b = Returned (True, b', d')"
    and target: "0 < target_aspect_ratio d"
    and int_rows: "rows img < 2 ^ 31"
    and inside: "\<forall>w. working_image_of cv img = Some w \<longrightarrow>
        (\<forall>c \<in> set (findContours cv (snd (preprocessImageForID1Document cv w))).
           \<forall>p \<in> set c. 0 \<le> fst p \<and> fst p < cols w \<and> 0 \<le> snd p \<and> snd p < rows w)"
    and approx: "\<forall>c e. set (approxPolyDP cv c e) \<subseteq> set c"
    and hull: "\<forall>c. set (convexHull cv c) \<subseteq> set c"
    and circle: "\<forall>c W H. c \<noteq> [] \<longrightarrow>
        (\<forall>p \<in> set c. 0 \<le> fst p \<and> fst p \<le> W \<and> 0 \<le> snd p \<and> snd p \<le> H) \<longrightarrow>
        0 \<le> fst (minEnclosingCircle cv c) \<and> fst (minEnclosingCircle cv c) \<le> real_of_int W
        \<and> 0 \<le> snd (minEnclosingCircle cv c) \<and> snd (minEnclosingCircle cv c) \<le> real_of_int H"
  shows "0 \<le> confidence b' \<and> confidence b' \<le> 1
       \<and> 0 \<le> x1 b' \<and> x1 b' \<le> 1 \<and> 0 \<le> y1 b' \<and> y1 b' \<le> 1
       \<and> 0 \<le> x2 b' \<and> x2 b' \<le> 1 \<and> 0 \<le> y2 b' \<and> y2 b' \<le> 1
       \<and> 0 \<le> x3 b' \<and> x3 b' \<le> 1 \<and> 0 \<le> y3 b' \<and> y3 b' \<le> 1
       \<and> 0 \<le> x4 b' \<and> x4 b' \<le> 1 \<and> 0 \<le> y4 b' \<and> y4 b' \<le> 1"
proof -
  from ret have ne: "\<not> empty_mat img"
    by (auto simp: detectDocument_def)
  with ret obtain w where w: "working_image_of cv img = Some w"
    and on: "detect_on cv d img b w = (True, b', d')"
    by (auto simp: detectDocument_def split: option.splits)
  note s = detect_on_success [OF on]
  let ?best = "snd (snd (selection cv d w))"
  let ?contour = "scale_back (scale_factor_of img) ?best"
  let ?sz = "mat_size img"
  from selection_best_inside [OF s(2) approx] inside w
  have best_in: "\<forall>p \<in> set ?best. 0 \<le> fst p \<and> fst p < cols w \<and> 0 \<le> snd p \<and> snd p < rows w"
    by blast
  have in_img: "0 \<le> fst q \<and> fst q < cols img \<and> 0 \<le> snd q \<and> snd q < rows img"
    if "q \<in> set ?contour" for q
    using ne w best_in that int_rows by (rule scale_back_inside)
  from extract_corners [OF s(4) approx hull]
  obtain p1 p2 p3 p4 where mem: "p1 \<in> set ?contour" "p2 \<in> set ?contour"
      "p3 \<in> set ?contour" "p4 \<in> set ?contour"
    and xs: "x1 b' = real_of_int (fst p1) / real_of_int (cols img)"
      "x2 b' = real_of_int (fst p2) / real_of_int (cols img)"
      "x3 b' = real_of_int (fst p3) / real_of_int (cols img)"
      "x4 b' = real_of_int (fst p4) / real_of_int (cols img)"
    and ys: "y1 b' = real_of_int (snd p1) / real_of_int (rows img)"
      "y2 b' = real_of_int (snd p2) / real_of_int (rows img)"
      "y3 b' = real_of_int (snd p3) / real_of_int (rows img)"
      "y4 b' = real_of_int (snd p4) / real_of_int (rows img)"
    by (auto simp: mat_size_def)
  have corners: "0 \<le> x1 b' \<and> x1 b' \<le> 1 \<and> 0 \<le> y1 b' \<and> y1 b' \<le> 1
       \<and> 0 \<le> x2 b' \<and> x2 b' \<le> 1 \<and> 0 \<le> y2 b' \<and> y2 b' \<le> 1
       \<and> 0 \<le> x3 b' \<and> x3 b' \<le> 1 \<and> 0 \<le> y3 b' \<and> y3 b' \<le> 1
       \<and> 0 \<le> x4 b' \<and> x4 b' \<le> 1 \<and> 0 \<le> y4 b' \<and> y4 b' \<le> 1"
    unfolding xs ys
    using in_img [OF mem(1)] in_img [OF mem(2)] in_img [OF mem(3)] in_img [OF mem(4)]
    by (intro conjI; simp)
  have len: "4 \<le> length ?contour" using s(4) by (rule extract_length)
  then have nonempty: "?contour \<noteq> []" by auto
  have t': "0 < target_aspect_ratio d'" using target by (simp add: s(1) adapt_target_unchanged)
  have tol': "0 < aspect_ratio_tolerance d'" by (simp add: s(1) adapt_tolerance_pos)
  have conf: "confidence b'
      = 0.25 * areaScore (contourArea cv ?contour
                            / real_of_int (int_mul (width ?sz) (height ?sz)))
        + 0.40 * aspectScore (target_aspect_ratio d') (aspect_ratio_tolerance d')
            (real_of_int (rect_width (boundingRect cv ?contour))
               / real_of_int (rect_height (boundingRect cv ?contour)))
        + 0.15 * shapeScore (length ?contour)
        + 0.20 * centerednessScore (minEnclosingCircle cv ?contour) ?sz"
    using extract_confidence [OF s(4)] score_sub_scores [OF len t' tol', of cv ?sz] by simp
  from ne have pos: "0 < width ?sz" "0 < height ?sz"
    by (simp_all add: empty_mat_def mat_size_def)
  have "\<forall>p \<in> set ?contour. 0 \<le> fst p \<and> fst p \<le> cols img \<and> 0 \<le> snd p \<and> snd p \<le> rows img"
    using in_img by force
  with circle nonempty
  have "0 \<le> fst (minEnclosingCircle cv ?contour)
      \<and> fst (minEnclosingCircle cv ?contour) \<le> real_of_int (cols img)
      \<and> 0 \<le> snd (minEnclosingCircle cv ?contour)
      \<and> snd (minEnclosingCircle cv ?contour) \<le> real_of_int (rows img)"
    by blast
  then have c0: "0 \<le> centerednessScore (minEnclosingCircle cv ?contour) ?sz"
    using pos by (intro centerednessScore_nonneg) (simp_all add: mat_size_def)
  have c1: "centerednessScore (minEnclosingCircle cv ?contour) ?sz \<le> 1"
    by (rule centerednessScore_le_1)
  from sub_scores_range [OF t' tol' c0 c1]
  have "0 \<le> confidence b'" and "confidence b' \<le> 1" unfolding conf by blast+
  with corners show ?thesis by simp
qed

lemma fold_min_max_mem:
  fixes x :: int
  shows "fold min xs x \<in> insert x (set xs)" and "fold max xs x \<in> insert x (set xs)"
  by (rule fold_pick_mem; simp add: min_def max_def)+

lemma min_max_list_of_mem:
  assumes "xs \<noteq> []"
  shows "min_list_of xs \<in> set xs" and "max_list_of xs \<in> set xs"
  using assms fold_min_max_mem [of xs "hd xs"]
  by (auto simp: min_list_of_def max_list_of_def)

lemma ref_circle_in_box:
  assumes "c \<noteq> []"
    and "\<forall>p \<in> set c. 0 \<le> fst p \<and> fst p \<le> W \<and> 0 \<le> snd p \<and> snd p \<le> H"
  shows "0 \<le> fst (ref_minEnclosingCircle c) \<and> fst (ref_minEnclosingCircle c) \<le> real_of_int W
       \<and> 0 \<le> snd (ref_minEnclosingCircle c) \<and> snd (ref_minEnclosingCircle c) \<le> real_of_int H"
proof -
  from assms(1) have ne: "map fst c \<noteq> []" "map snd c \<noteq> []" by simp_all
  from min_max_list_of_mem [OF ne(1)] assms(2)
  have x: "0 \<le> min_list_of (map fst c)" "min_list_of (map fst c) \<le> W"
    "0 \<le> max_list_of (map fst c)" "max_list_of (map fst c) \<le> W"
    by auto
  from min_max_list_of_mem [OF ne(2)] assms(2)
  have y: "0 \<le> min_list_of (map snd c)" "min_list_of (map snd c) \<le> H"
    "0 \<le> max_list_of (map snd c)" "max_list_of (map snd c) \<le> H"
    by auto
  have "0 \<le> real_of_int (a + b) / 2 \<and> real_of_int (a + b) / 2 \<le> real_of_int M"
    if "0 \<le> a" "a \<le> M" "0 \<le> b" "b \<le> M" for a b M :: int
    using that by simp
  from this [OF x] this [OF y] assms(1) show ?thesis
    by (simp add: ref_minEnclosingCircle_def)
qed

lemma detect_photo_2400_returns:
  "detectDocument ref_cv ISO_ID1_DocumentDetector_init photo_2400 DocumentBounds_init
     = Returned (True,
         snd (extractDocumentBounds ref_cv working_detector card_2400
                \<lparr>width = 2400, height = 1600\<rparr> DocumentBounds_init),
         working_detector)"
proof -
  have ne: "\<not> empty_mat photo_2400" by (simp add: empty_mat_def photo_2400_def)
  show ?thesis
    by (simp add: detectDocument_def ne photo_2400_working_image
        detect_photo_2400 [OF init_target])
qed

theorem detectDocument_in_range_witness:
  "detectDocument ref_cv ISO_ID1_DocumentDetector_init photo_2400 DocumentBounds_init
     = Returned (True,
         snd (extractDocumentBounds ref_cv working_detector card_2400
                \<lparr>width = 2400, height = 1600\<rparr> DocumentBounds_init),
         working_detector)
   \<and> 0 \<le> confidence (snd (extractDocumentBounds ref_cv working_detector card_2400
                \<lparr>width = 2400, height = 1600\<rparr> DocumentBounds_init))
   \<and> confidence (snd (extractDocumentBounds ref_cv working_detector card_2400
                \<lparr>width = 2400, height = 1600\<rparr> DocumentBounds_init)) \<le> 1
   \<and> 0 \<le> x1 (snd (extractDocumentBounds ref_cv working_detector card_2400
                \<lparr>width = 2400, height = 1600\<rparr> DocumentBounds_init))
   \<and> x1 (snd (extractDocumentBounds ref_cv working_detector card_2400
                \<lparr>width = 2400, height = 1600\<rparr> DocumentBounds_init)) \<le> 1"
proof -
  have target: "0 < target_aspect_ratio ISO_ID1_DocumentDetector_init"
    by (simp add: init_target)
  have inside: "\<forall>w. working_image_of ref_cv photo_2400 = Some w \<longrightarrow>
        (\<forall>c \<in> set (findContours ref_cv (snd (preprocessImageForID1Document ref_cv w))).
           \<forall>p \<in> set c. 0 \<le> fst p \<and> fst p < cols w \<and> 0 \<le> snd p \<and> snd p < rows w)"
  proof -
    have g: "to_gray ref_cv photo_2400_working = photo_2400_working\<lparr>channels := 1\<rparr>"
      by (rule to_gray_ref_3) (simp add: photo_2400_working_def)
    show ?thesis
      by (simp add: photo_2400_working_image preprocess_ref ref_cv_simps g)
        (simp add: photo_2400_working_def id1_frame_def)
  qed
  have approx: "\<forall>c e. set (approxPolyDP ref_cv c e) \<subseteq> set c"
    and hull: "\<forall>c. set (convexHull ref_cv c) \<subseteq> set c"
    by (simp_all add: ref_cv_simps)
  have circle: "\<forall>c W H. c \<noteq> [] \<longrightarrow>
        (\<forall>p \<in> set c. 0 \<le> fst p \<and> fst p \<le> W \<and> 0 \<le> snd p \<and> snd p \<le> H) \<longrightarrow>
        0 \<le> fst (minEnclosingCircle ref_cv c) \<and> fst (minEnclosingCircle ref_cv c) \<le> real_of_int W
        \<and> 0 \<le> snd (minEnclosingCircle ref_cv c) \<and> snd (minEnclosingCircle ref_cv c) \<le> real_of_int H"
    unfolding ref_cv_simps using ref_circle_in_box by blast
  have int_rows: "rows photo_2400 < 2 ^ 31" by (simp add: photo_2400_def)
  from detectDocument_in_range [OF detect_photo_2400_returns target int_rows inside approx hull
      circle]
    detect_photo_2400_returns
  show ?thesis by simp
qed

lemma norm2_pos: "0 < a \<Longrightarrow> 0 < b \<Longrightarrow> 0 < norm2 a b"
  by (simp add: norm2_def add_pos_pos)

lemma scale_factor_pos: "\<not> empty_mat img \<Longrightarrow> 0 < scale_factor_of img"
  using scale_factor_bounds(3) [of img] scale_factor_small [of img]
  by (cases "1200 < cols img") simp_all

text \<open>
  The divisors of the pipeline that depend on the image are positive whenever the
  input image is not empty, a working image exists and both images have at most
  \<open>2 ^ 31 - 1\<close> pixels: the scale factor, the smaller dimension and the area of the
  working image (the \<^verbatim>\<open>int\<close> product), the aspect tolerance selected for it, and the
  width, height, area and half diagonal of both images. (The other two divisors are the
  target aspect ratio, a field of the detector, and the height of a bounding rectangle,
  which the library gives.)
\<close>

theorem detectDocument_divisors_positive:
  assumes ne: "\<not> empty_mat img" and w: "working_image_of cv img = Some w"
    and pixels_w: "cols w * rows w \<le> 2 ^ 31 - 1"
    and pixels_img: "cols img * rows img \<le> 2 ^ 31 - 1"
  shows "0 < scale_factor_of img
       \<and> 0 < min (cols w) (rows w)
       \<and> 0 < real_of_int (int_mul (rows w) (cols w))
       \<and> 0 < real_of_int (int_mul (cols w) (rows w))
       \<and> 0 < aspect_ratio_tolerance (adaptParametersForImageSize d (mat_size w))
       \<and> 0 < norm2 (real_of_int (cols w) / 2) (real_of_int (rows w) / 2)
       \<and> 0 < cols img \<and> 0 < rows img
       \<and> 0 < real_of_int (int_mul (cols img) (rows img))
       \<and> 0 < norm2 (real_of_int (cols img) / 2) (real_of_int (rows img) / 2)"
proof -
  from working_image_nonempty [OF ne w] have pw: "0 < cols w" "0 < rows w" by simp_all
  from ne have pi: "0 < cols img" "0 < rows img" by (simp_all add: empty_mat_def)
  from pw have aw: "0 < cols w * rows w" by simp
  from pi have ai: "0 < cols img * rows img" by simp
  have mw: "int_mul (cols w) (rows w) = cols w * rows w"
    using aw pixels_w by (intro int_mul_exact) simp_all
  have mw': "int_mul (rows w) (cols w) = cols w * rows w"
    using aw pixels_w by (simp add: int_mul_def mult.commute)
  have mi: "int_mul (cols img) (rows img) = cols img * rows img"
    using ai pixels_img by (intro int_mul_exact) simp_all
  from pw pi aw ai show ?thesis
    unfolding mw mw' mi
    by (simp add: scale_factor_pos [OF ne] adapt_tolerance_pos norm2_pos)
qed

text \<open>
  C1 fails on a 5000 x 1 image: it is not empty, the scale factor 0.24 gives a working
  image of 1200 x 0 pixels, \<^verbatim>\<open>cv::resize\<close> raises on the empty size and
  \<^verbatim>\<open>detectDocument\<close> does not catch the exception: the call returns neither true
  nor false.
\<close>

theorem detectDocument_strip_raises:
  "\<not> empty_mat strip_photo
   \<and> cvRound (real_of_int (rows strip_photo) * scale_factor_of strip_photo) = 0
   \<and> detectDocument ref_cv ISO_ID1_DocumentDetector_init strip_photo DocumentBounds_init = Raised"
proof -
  define sf where "sf = scale_factor_of strip_photo"
  have ne: "\<not> empty_mat strip_photo" by (simp add: empty_mat_def strip_photo_def)
  have l: "1200 < cols strip_photo" by (simp add: strip_photo_def)
  note b = scale_factor_bounds(1,2) [OF l, unfolded two_powi_minus_53, folded sf_def]
  have c: "real_of_int (cols strip_photo) = 5000" by (simp add: strip_photo_def)
  from b have lo: "1 / 5 < sf" and hi: "sf < 1 / 4" unfolding c by simp_all
  then have sf0: "0 < sf" by simp
  have "\<bar>sf - real_of_int 0\<bar> < 1 / 2" using lo hi by simp
  then have r0: "round_half_even sf = 0" by (rule round_half_even_eq)
  note d = double_of_bounds [OF sf0, unfolded two_powi_minus_53]
  have "\<bar>double_of sf - real_of_int 0\<bar> < 1 / 2" using lo hi d by simp
  then have r1: "round_half_even (double_of sf) = 0" by (rule round_half_even_eq)
  have 2: "cvRound (real_of_int (rows strip_photo) * scale_factor_of strip_photo) = 0"
    using r0 by (simp add: cvRound_def strip_photo_def sf_def)
  have h: "cvRound (double_mul (real_of_int (rows strip_photo)) (scale_factor_of strip_photo)) = 0"
    using r1 by (simp add: cvRound_def double_mul_def strip_photo_def sf_def)
  have "working_image_of ref_cv strip_photo = None"
    using l h by (simp add: working_image_of_def resize_to_def Let_def)
  with ne have 3: "detectDocument ref_cv ISO_ID1_DocumentDetector_init strip_photo
      DocumentBounds_init = Raised"
    by (simp add: detectDocument_def)
  from ne 2 3 show ?thesis by (intro conjI)
qed

section \<open>Properties of the C interface\<close>

text \<open>
  C10: for every context and every value that \<^verbatim>\<open>std::stod\<close> reads as a number,
  \<^verbatim>\<open>id_reader_set_config\<close> with key canny_threshold1 sets the second Canny threshold
  to 150, canny_threshold2 sets the first to 50, min_contour_area sets the maximum area
  to 500000 and max_contour_area sets the minimum area to 10000, whatever these partner
  fields held before; the call succeeds and records the pair in the configuration map.
\<close>

theorem id_reader_set_config_resets_partner:
  assumes "stod v = Some t"
  shows "id_reader_set_config stod (Some c) (Some ''canny_threshold1'') (Some v)
           = (ID_READER_SUCCESS,
              Some (c\<lparr>detector := (detector c)\<lparr>dd_canny_threshold1 := t, dd_canny_threshold2 := 150\<rparr>,
                      config := (config c)(''canny_threshold1'' \<mapsto> v)\<rparr>))
       \<and> id_reader_set_config stod (Some c) (Some ''canny_threshold2'') (Some v)
           = (ID_READER_SUCCESS,
              Some (c\<lparr>detector := (detector c)\<lparr>dd_canny_threshold1 := 50, dd_canny_threshold2 := t\<rparr>,
                      config := (config c)(''canny_threshold2'' \<mapsto> v)\<rparr>))
       \<and> id_reader_set_config stod (Some c) (Some ''min_contour_area'') (Some v)
           = (ID_READER_SUCCESS,
              Some (c\<lparr>detector := (detector c)\<lparr>dd_min_contour_area := t, dd_max_contour_area := 500000\<rparr>,
                      config := (config c)(''min_contour_area'' \<mapsto> v)\<rparr>))
       \<and> id_reader_set_config stod (Some c) (Some ''max_contour_area'') (Some v)
           = (ID_READER_SUCCESS,
              Some (c\<lparr>detector := (detector c)\<lparr>dd_min_contour_area := 10000, dd_max_contour_area := t\<rparr>,
                      config := (config c)(''max_contour_area'' \<mapsto> v)\<rparr>))"
  using assms
  by (simp add: id_reader_set_config_def apply_key_def dd_setCannyThresholds_def
      dd_setContourAreaRange_def)

theorem id_reader_set_config_resets_partner_witness:
  "stod_digits ''60'' = Some 60
   \<and> id_reader_set_config stod_digits (Some id_reader_context_init)
         (Some ''canny_threshold2'') (Some ''200'')
       = (ID_READER_SUCCESS, Some context_200)
   \<and> dd_canny_threshold2 (detector context_200) = 200
   \<and> id_reader_set_config stod_digits (Some context_200) (Some ''canny_threshold1'') (Some ''60'')
       = (ID_READER_SUCCESS,
          Some (context_200\<lparr>detector := (detector context_200)
                                \<lparr>dd_canny_threshold1 := 60, dd_canny_threshold2 := 150\<rparr>,
                  config := (config context_200)(''canny_threshold1'' \<mapsto> ''60'')\<rparr>))"
proof -
  have 1: "stod_digits ''60'' = Some 60" by (simp add: stod_digits_def)
  have 2: "stod_digits ''200'' = Some 200" by (simp add: stod_digits_def)
  have 3: "id_reader_set_config stod_digits (Some id_reader_context_init)
         (Some ''canny_threshold2'') (Some ''200'')
       = (ID_READER_SUCCESS, Some context_200)"
    by (simp add: id_reader_set_config_def apply_key_def 2 dd_setCannyThresholds_def
        id_reader_context_init_def context_200_def DocumentDetector_init_def)
  from id_reader_set_config_resets_partner [of stod_digits "''60''" 60 context_200, OF 1] 1 3
  show ?thesis
    by (simp add: context_200_def)
qed


text \<open>
  The generic detector behind the C interface reads what was configured: with the
  minimum contour area set to 200000 through \<^verbatim>\<open>id_reader_set_config\<close>, its contour
  stage drops the card outline of area 100800 that it keeps with the default 10000.
\<close>

lemma generic_detector_reads_configuration:
  "id_reader_set_config stod_digits (Some id_reader_context_init)
       (Some ''min_contour_area'') (Some ''200000'')
     = (ID_READER_SUCCESS, Some context_min_area)
   \<and> dd_findContours ref_cv (detector id_reader_context_init) edge_map_1200
       = (True, [id1_frame, diamond])
   \<and> dd_findContours ref_cv (detector context_min_area) edge_map_1200 = (True, [diamond])"
proof -
  have 1: "stod_digits ''200000'' = Some 200000" by (simp add: stod_digits_def)
  have 2: "id_reader_set_config stod_digits (Some id_reader_context_init)
       (Some ''min_contour_area'') (Some ''200000'')
     = (ID_READER_SUCCESS, Some context_min_area)"
    by (simp add: id_reader_set_config_def apply_key_def 1 dd_setContourAreaRange_def
        id_reader_context_init_def context_min_area_def DocumentDetector_init_def)
  have 3: "dd_findContours ref_cv (detector id_reader_context_init) edge_map_1200
       = (True, [id1_frame, diamond])"
    by (simp add: dd_findContours_def id_reader_context_init_def DocumentDetector_init_def
        edge_map_1200_def ref_cv_simps ref_contourArea_def speck_def id1_frame_def diamond_def
        Let_def)
  have 4: "dd_findContours ref_cv (detector context_min_area) edge_map_1200 = (True, [diamond])"
    by (simp add: dd_findContours_def context_min_area_def DocumentDetector_init_def
        edge_map_1200_def ref_cv_simps ref_contourArea_def speck_def id1_frame_def diamond_def
        Let_def)
  from 2 3 4 show ?thesis by (intro conjI)
qed

end
